theory Spec2Isabelle
  imports Complex_Main
begin

section \<open>Circuits, instructions and operators\<close>

text \<open>
  A circuit is an ordered list of instructions over a qubit register and a classical
  register. An instruction is an operator applied to an ordered list of qubit indices and
  an ordered list of classical bit indices. An operator is known to the program by its
  name and its real parameters (the angles).
\<close>

datatype error = ValueError | CircuitError | QiskitError | OverflowError | Unsupported

record gate =
  name :: string
  params :: "real list"

record instruction =
  operation :: gate
  qubits :: "nat list"
  clbits :: "nat list"

record circuit =
  num_qubits :: nat
  num_clbits :: nat
  data :: "instruction list"

text \<open>
  The circuit constructor of the library: \<open>QuantumCircuit(n, m)\<close> makes an empty circuit
  over \<open>n\<close> qubits and \<open>m\<close> classical bits, and refuses a negative register size.
\<close>

definition QuantumCircuit :: "int \<Rightarrow> int \<Rightarrow> error + circuit" where
  "QuantumCircuit n m =
     (if n < 0 \<or> m < 0 then Inl CircuitError
      else Inr \<lparr>num_qubits = nat n, num_clbits = nat m, data = []\<rparr>)"

text \<open>The operators the program builds, under the names the library gives them.\<close>

definition XGate :: gate where
  "XGate = \<lparr>name = ''x'', params = []\<rparr>"

definition HGate :: gate where
  "HGate = \<lparr>name = ''h'', params = []\<rparr>"

definition CPhaseGate :: "real \<Rightarrow> gate" where
  "CPhaseGate theta = \<lparr>name = ''cp'', params = [theta]\<rparr>"

definition PhaseGate :: "real \<Rightarrow> gate" where
  "PhaseGate theta = \<lparr>name = ''p'', params = [theta]\<rparr>"

definition SwapGate :: gate where
  "SwapGate = \<lparr>name = ''swap'', params = []\<rparr>"

definition Measure :: gate where
  "Measure = \<lparr>name = ''measure'', params = []\<rparr>"

definition RZGate :: "real \<Rightarrow> gate" where
  "RZGate phi = \<lparr>name = ''rz'', params = [phi]\<rparr>"

definition SXGate :: gate where
  "SXGate = \<lparr>name = ''sx'', params = []\<rparr>"

definition CXGate :: gate where
  "CXGate = \<lparr>name = ''cx'', params = []\<rparr>"

definition Instr :: "gate \<Rightarrow> nat list \<Rightarrow> nat list \<Rightarrow> instruction" where
  "Instr g qs cs = \<lparr>operation = g, qubits = qs, clbits = cs\<rparr>"

text \<open>
  \<open>circuit.append(gate, qargs, cargs)\<close> and the methods \<open>circuit.h(i)\<close>,
  \<open>circuit.cp(angle, control, target)\<close>, ... built on it put one instruction at the end
  of the circuit. Every index the program passes is below the register size it declared,
  so the library's index check never fires and is left out.
\<close>

definition append_instr :: "circuit \<Rightarrow> gate \<Rightarrow> nat list \<Rightarrow> nat list \<Rightarrow> circuit" where
  "append_instr c g qs cs = c\<lparr>data := data c @ [Instr g qs cs]\<rparr>"

section \<open>Fourier transform engine (quantum\_fourier\_transform.py)\<close>

text \<open>
  A loop whose body can raise: the first error ends the loop and is the result.
\<close>

fun fold_err :: "('a \<Rightarrow> 'b \<Rightarrow> error + 'b) \<Rightarrow> 'a list \<Rightarrow> 'b \<Rightarrow> error + 'b" where
  "fold_err f [] s = Inr s"
| "fold_err f (x # xs) s =
     (case f x s of
        Inl e \<Rightarrow> Inl e
      | Inr s' \<Rightarrow> fold_err f xs s')"

text \<open>
  The expression \<open>2 * np.pi / (2 ** k)\<close>: a float divided by an integer. Python turns
  the integer into a float first and raises \<open>OverflowError\<close> when it does not fit,
  which for a power of two is from \<open>2 ** 1024\<close> on. Below that the quotient is taken
  as the real number the expression denotes; the rounding of double precision is not
  modelled.
\<close>

definition two_pi_over_pow2 :: "nat \<Rightarrow> error + real" where
  "two_pi_over_pow2 k = (if 1024 \<le> k then Inl OverflowError else Inr (2 * pi / (2 ^ k)))"

text \<open>
  \<open>_create_cphase_gate(circuit, control, target, k)\<close>: the angle is
  \<open>2 * np.pi / (2 ** k)\<close>; when that raises, no gate is put on the circuit.
\<close>

definition create_cphase_gate :: "circuit \<Rightarrow> nat \<Rightarrow> nat \<Rightarrow> nat \<Rightarrow> error + circuit" where
  "create_cphase_gate c control target k =
     (case two_pi_over_pow2 k of
        Inl e \<Rightarrow> Inl e
      | Inr angle \<Rightarrow> Inr (append_instr c (CPhaseGate angle) [control, target] []))"

text \<open>
  The body of the outer loop of \<open>construct_qft\<close> for one \<open>i\<close>: the Hadamard, then the
  inner loop \<open>for j in range(i + 1, n_qubits)\<close> with \<open>k = j - i + 1\<close>.
\<close>

definition qft_step :: "nat \<Rightarrow> nat \<Rightarrow> circuit \<Rightarrow> error + circuit" where
  "qft_step n i c =
     fold_err (\<lambda>j c'. create_cphase_gate c' j i (j - i + 1)) [i + 1..<n]
       (append_instr c HGate [i] [])"

text \<open>
  \<open>construct_qft(n_qubits)\<close>: the constructor, the loop \<open>for i in range(n_qubits)\<close>,
  then the swaps \<open>for i in range(n_qubits // 2)\<close>. Past the constructor \<open>n_qubits\<close> is
  not negative, and the loop variables are naturals.
\<close>

definition construct_qft :: "int \<Rightarrow> error + circuit" where
  "construct_qft n_qubits =
     (case QuantumCircuit n_qubits 0 of
        Inl e \<Rightarrow> Inl e
      | Inr circuit \<Rightarrow>
          let n = nat n_qubits
          in case fold_err (qft_step n) [0..<n] circuit of
               Inl e \<Rightarrow> Inl e
             | Inr circuit1 \<Rightarrow>
                 Inr (fold (\<lambda>i c. append_instr c SwapGate [i, n - i - 1] [])
                        [0..<nat (n_qubits div 2)] circuit1))"

text \<open>
  The gate sequence of the forward transform in closed form: one block per qubit
  (the Hadamard, then the controlled phases from the later qubits), then the swaps.
\<close>

definition qft_block :: "nat \<Rightarrow> nat \<Rightarrow> instruction list" where
  "qft_block n i =
     Instr HGate [i] [] #
     map (\<lambda>j. Instr (CPhaseGate (2 * pi / 2 ^ (j - i + 1))) [j, i] []) [i + 1..<n]"

definition qft_data :: "nat \<Rightarrow> instruction list" where
  "qft_data n =
     concat (map (qft_block n) [0..<n]) @
     map (\<lambda>i. Instr SwapGate [i, n - 1 - i] []) [0..<n div 2]"

section \<open>Inverse circuits\<close>

text \<open>
  \<open>circuit.inverse()\<close> of the library returns a circuit over the same registers that holds
  the inverse of every instruction, last instruction first. The inverse of an operator
  comes from the library's table: \<open>h\<close>, \<open>x\<close> and \<open>swap\<close> are their own inverses
  (they have no parameter), \<open>cp\<close> and \<open>p\<close> negate their angle, a measurement has no
  inverse. The table below holds the operators of the circuits inverted here; an
  operator outside it is reported as \<open>Unsupported\<close>, so that nothing rests on an inverse
  the table does not give.
\<close>

definition gate_inverse :: "gate \<Rightarrow> error + gate" where
  "gate_inverse g =
     (if name g \<in> {''h'', ''x'', ''swap'', ''cp'', ''p''}
      then Inr (g\<lparr>params := map uminus (params g)\<rparr>)
      else if name g = ''measure'' then Inl CircuitError
      else Inl Unsupported)"

fun inverse_data :: "instruction list \<Rightarrow> error + instruction list" where
  "inverse_data [] = Inr []"
| "inverse_data (ins # rest) =
     (case inverse_data rest of
        Inl e \<Rightarrow> Inl e
      | Inr r \<Rightarrow>
          (case gate_inverse (operation ins) of
             Inl e \<Rightarrow> Inl e
           | Inr g \<Rightarrow> Inr (r @ [ins\<lparr>operation := g\<rparr>])))"

definition inverse :: "circuit \<Rightarrow> error + circuit" where
  "inverse c =
     (case inverse_data (data c) of
        Inl e \<Rightarrow> Inl e
      | Inr d \<Rightarrow> Inr (c\<lparr>data := d\<rparr>))"

text \<open>\<open>construct_inverse_qft(n_qubits)\<close>: \<open>self.construct_qft(n_qubits).inverse()\<close>.\<close>

definition construct_inverse_qft :: "int \<Rightarrow> error + circuit" where
  "construct_inverse_qft n_qubits =
     (case construct_qft n_qubits of
        Inl e \<Rightarrow> Inl e
      | Inr qft \<Rightarrow> inverse qft)"

text \<open>The instruction with every angle negated: same operator name, same qubits.\<close>

definition negate_angles :: "instruction \<Rightarrow> instruction" where
  "negate_angles ins =
     ins\<lparr>operation := (operation ins)\<lparr>params := map uminus (params (operation ins))\<rparr>\<rparr>"

definition fourier_op :: "instruction \<Rightarrow> bool" where
  "fourier_op ins \<longleftrightarrow> name (operation ins) \<in> {''h'', ''x'', ''swap'', ''cp'', ''p''}"

section \<open>What the operators do\<close>

text \<open>
  The action of the operators, as the circuit library defines them, in exact complex
  arithmetic. A single-qubit operator is a 2 by 2 matrix, written as its four entries row
  by row. A register state gives an amplitude to every basis state; basis state \<open>x\<close>
  has qubit \<open>q\<close> set when bit \<open>q\<close> of \<open>x\<close> is set.
\<close>

type_synonym mat2 = "complex \<times> complex \<times> complex \<times> complex"

type_synonym state = "nat \<Rightarrow> complex"

fun mat_mul :: "mat2 \<Rightarrow> mat2 \<Rightarrow> mat2" where
  "mat_mul (a, b, c, d) (a', b', c', d') =
     (a * a' + b * c', a * b' + b * d', c * a' + d * c', c * b' + d * d')"

fun mat_scale :: "complex \<Rightarrow> mat2 \<Rightarrow> mat2" where
  "mat_scale k (a, b, c, d) = (k * a, k * b, k * c, k * d)"

definition I_mat :: mat2 where
  "I_mat = (1, 0, 0, 1)"

definition H_mat :: mat2 where
  "H_mat = (let r = complex_of_real (1 / sqrt 2) in (r, r, r, - r))"

definition X_mat :: mat2 where
  "X_mat = (0, 1, 1, 0)"

definition P_mat :: "real \<Rightarrow> mat2" where
  "P_mat theta = (1, 0, 0, cis theta)"

definition RZ_mat :: "real \<Rightarrow> mat2" where
  "RZ_mat phi = (cis (- phi / 2), 0, 0, cis (phi / 2))"

definition RY_mat :: "real \<Rightarrow> mat2" where
  "RY_mat theta =
     (complex_of_real (cos (theta / 2)), - complex_of_real (sin (theta / 2)),
      complex_of_real (sin (theta / 2)), complex_of_real (cos (theta / 2)))"

definition SX_mat :: mat2 where
  "SX_mat = ((1 + \<i>) / 2, (1 - \<i>) / 2, (1 - \<i>) / 2, (1 + \<i>) / 2)"

definition gate_matrix :: "gate \<Rightarrow> mat2 option" where
  "gate_matrix g =
     (case params g of
        [] \<Rightarrow>
          if name g = ''h'' then Some H_mat
          else if name g = ''x'' then Some X_mat
          else if name g = ''sx'' then Some SX_mat
          else if name g = ''id'' then Some I_mat
          else None
      | [theta] \<Rightarrow>
          if name g = ''p'' then Some (P_mat theta)
          else if name g = ''rz'' then Some (RZ_mat theta)
          else None
      | _ \<Rightarrow> None)"

text \<open>Two matrices are the same operator up to a global phase.\<close>

definition phase_equiv :: "mat2 \<Rightarrow> mat2 \<Rightarrow> bool" where
  "phase_equiv A B \<longleftrightarrow> (\<exists>k. cmod k = 1 \<and> A = mat_scale k B)"

fun apply1 :: "mat2 \<Rightarrow> nat \<Rightarrow> state \<Rightarrow> state" where
  "apply1 (a, b, c, d) q psi =
     (\<lambda>x. if bit x q then c * psi (unset_bit q x) + d * psi x
          else a * psi x + b * psi (set_bit q x))"

definition apply_cp :: "real \<Rightarrow> nat \<Rightarrow> nat \<Rightarrow> state \<Rightarrow> state" where
  "apply_cp theta c t psi = (\<lambda>x. if bit x c \<and> bit x t then cis theta * psi x else psi x)"

definition swap_bits :: "nat \<Rightarrow> nat \<Rightarrow> nat \<Rightarrow> nat" where
  "swap_bits a b x =
     (let xa = (if bit x b then set_bit a x else unset_bit a x)
      in if bit x a then set_bit b xa else unset_bit b xa)"

definition apply_swap :: "nat \<Rightarrow> nat \<Rightarrow> state \<Rightarrow> state" where
  "apply_swap a b psi = (\<lambda>x. psi (swap_bits a b x))"

text \<open>
  The action of one instruction, for the operators of the transform circuits and the
  single-qubit operators above; \<open>None\<close> for any other operator or arity.
\<close>

definition instr_sem :: "instruction \<Rightarrow> (state \<Rightarrow> state) option" where
  "instr_sem ins =
     (let g = operation ins
      in case qubits ins of
           [q] \<Rightarrow> map_option (\<lambda>m. apply1 m q) (gate_matrix g)
         | [a, b] \<Rightarrow>
             (case params g of
                [] \<Rightarrow> if name g = ''swap'' then Some (apply_swap a b) else None
              | [theta] \<Rightarrow> if name g = ''cp'' then Some (apply_cp theta a b) else None
              | _ \<Rightarrow> None)
         | _ \<Rightarrow> None)"

fun run :: "instruction list \<Rightarrow> state \<Rightarrow> state option" where
  "run [] psi = Some psi"
| "run (ins # rest) psi =
     (case instr_sem ins of
        None \<Rightarrow> None
      | Some f \<Rightarrow> run rest (f psi))"

section \<open>Phase adder engine (drapper.py)\<close>

text \<open>The test \<open>number & (1 << j)\<close> of the source: the result is not zero.\<close>

definition bit_set :: "int \<Rightarrow> nat \<Rightarrow> bool" where
  "bit_set number j \<longleftrightarrow> and number (push_bit j 1) \<noteq> 0"

text \<open>
  \<open>_binary_to_phase_angles(number, n_qubits)\<close>. \<open>phase_angle\<close> is the inner loop
  \<open>for j in range(i + 1)\<close>, which starts from \<open>angle = 0\<close> and adds
  \<open>2 * np.pi / (2 ** (i - j + 1))\<close> for every bit \<open>j\<close> that is set; the outer loop
  appends one angle per \<open>i\<close>. The sums are sums of real numbers: the code adds in
  double precision, and that rounding is not modelled.
\<close>

definition phase_angle :: "int \<Rightarrow> nat \<Rightarrow> error + real" where
  "phase_angle number i =
     fold_err
       (\<lambda>j angle.
          if bit_set number j then
            (case two_pi_over_pow2 (i - j + 1) of
               Inl e \<Rightarrow> Inl e
             | Inr t \<Rightarrow> Inr (angle + t))
          else Inr angle)
       [0..<i + 1] 0"

definition binary_to_phase_angles :: "int \<Rightarrow> int \<Rightarrow> error + real list" where
  "binary_to_phase_angles number n_qubits =
     fold_err
       (\<lambda>i angles.
          case phase_angle number i of
            Inl e \<Rightarrow> Inl e
          | Inr angle \<Rightarrow> Inr (angles @ [angle]))
       [0..<nat n_qubits] []"

text \<open>
  \<open>2 ** n_qubits\<close> in Python: an exact integer for \<open>n_qubits \<ge> 0\<close>; for a negative
  exponent a float, which is the exact power of two down to \<open>2 ** -1074\<close> and \<open>0.0\<close>
  below. Python compares an integer with a float by value.
\<close>

definition pow2 :: "int \<Rightarrow> real" where
  "pow2 n =
     (if 0 \<le> n then 2 ^ nat n
      else if n < - 1074 then 0
      else 1 / 2 ^ nat (- n))"

text \<open>
  \<open>circuit.compose(other, inplace=True)\<close> of the library: the instructions of \<open>other\<close>
  are put after those of the circuit, on the same qubit indices; a circuit wider than
  the destination is refused.
\<close>

definition compose :: "circuit \<Rightarrow> circuit \<Rightarrow> error + circuit" where
  "compose dest other =
     (if num_qubits dest < num_qubits other \<or> num_clbits dest < num_clbits other
      then Inl CircuitError
      else Inr (dest\<lparr>data := data dest @ data other\<rparr>))"

text \<open>
  \<open>circuit.measure(qs, cs)\<close> of the library with two index ranges of the same length:
  one measurement per pair, in order.
\<close>

definition measure :: "circuit \<Rightarrow> nat list \<Rightarrow> nat list \<Rightarrow> error + circuit" where
  "measure c qs cs =
     (if length qs = length cs
      then Inr (fold (\<lambda>(q, cl) c'. append_instr c' Measure [q] [cl]) (zip qs cs) c)
      else Inl CircuitError)"

text \<open>
  \<open>construct_adder(a, b, n_qubits)\<close>. The list \<open>angles\<close> has one entry per qubit, so
  \<open>angles[i]\<close> is always in range.
\<close>

definition construct_adder :: "int \<Rightarrow> int \<Rightarrow> int \<Rightarrow> error + circuit" where
  "construct_adder a b n_qubits =
     (if pow2 n_qubits \<le> real_of_int a \<or> pow2 n_qubits \<le> real_of_int b then Inl ValueError
      else
        case QuantumCircuit n_qubits n_qubits of
          Inl e \<Rightarrow> Inl e
        | Inr circuit \<Rightarrow>
            let n = nat n_qubits;
                circuit1 = fold (\<lambda>i c. if bit_set a i then append_instr c XGate [i] [] else c)
                             [0..<n] circuit
            in case construct_qft n_qubits of
                 Inl e \<Rightarrow> Inl e
               | Inr qft_circuit \<Rightarrow>
                   (case compose circuit1 qft_circuit of
                      Inl e \<Rightarrow> Inl e
                    | Inr circuit2 \<Rightarrow>
                        (case binary_to_phase_angles b n_qubits of
                           Inl e \<Rightarrow> Inl e
                         | Inr angles \<Rightarrow>
                             let circuit3 =
                                   fold (\<lambda>i c. append_instr c (PhaseGate (angles ! i)) [i] [])
                                     [0..<n] circuit2
                             in case construct_inverse_qft n_qubits of
                                  Inl e \<Rightarrow> Inl e
                                | Inr inverse_qft_circuit \<Rightarrow>
                                    (case compose circuit3 inverse_qft_circuit of
                                       Inl e \<Rightarrow> Inl e
                                     | Inr circuit4 \<Rightarrow> measure circuit4 [0..<n] [0..<n]))))"

text \<open>
  \<open>int.bit_length()\<close>: the number of binary digits of the absolute value, \<open>0\<close> for \<open>0\<close>.
\<close>

fun bit_length_nat :: "nat \<Rightarrow> nat" where
  "bit_length_nat n = (if n = 0 then 0 else Suc (bit_length_nat (n div 2)))"

definition bit_length :: "int \<Rightarrow> int" where
  "bit_length x = int (bit_length_nat (nat \<bar>x\<bar>))"

text \<open>\<open>quantum_sum(a, b)\<close>.\<close>

definition quantum_sum :: "int \<Rightarrow> int \<Rightarrow> error + circuit \<times> int" where
  "quantum_sum a b =
     (let sum_value = a + b;
          n_qubits = max (bit_length sum_value) (max (bit_length a) (bit_length b))
      in case construct_adder a b n_qubits of
           Inl e \<Rightarrow> Inl e
         | Inr circuit \<Rightarrow> Inr (circuit, n_qubits))"

section \<open>Basis transformer (gate\_basis\_transformer.py)\<close>

definition basis_gates :: "string set" where
  "basis_gates = {''cx'', ''id'', ''rz'', ''sx'', ''x''}"

text \<open>\<open>str.lower()\<close> on the ASCII letters operator names are made of.\<close>

definition lower_char :: "char \<Rightarrow> char" where
  "lower_char c =
     (let k = (of_char c :: nat)
      in if 65 \<le> k \<and> k \<le> 90 then char_of (k + 32) else c)"

definition lower :: "string \<Rightarrow> string" where
  "lower s = map lower_char s"

text \<open>
  Two primitives of the library are parameters of the transformer:
  \<^item> \<open>angles\<close>: the matrix of an operator (\<open>gate.to_matrix()\<close>) followed by
    \<open>OneQubitEulerDecomposer(basis='ZSX').angles(matrix)\<close>, which returns the triple
    \<open>(theta, phi, lambda)\<close> or raises;
  \<^item> \<open>decompose\<close>: \<open>circuit.decompose()\<close>, which replaces every operator that has a
    definition by the instructions of that definition, over the same registers.
\<close>

type_synonym euler_angles = "gate \<Rightarrow> error + real \<times> real \<times> real"

text \<open>
  \<open>_decompose_single_qubit_gate(gate, qubit)\<close>: the five operators are put on a
  one-qubit circuit and returned as pairs of an operator and the list \<open>[qubit]\<close>.
\<close>

definition decompose_single_qubit_gate ::
    "euler_angles \<Rightarrow> gate \<Rightarrow> nat \<Rightarrow> error + (gate \<times> nat list) list" where
  "decompose_single_qubit_gate angles g qubit =
     (case QuantumCircuit 1 0 of
        Inl e \<Rightarrow> Inl e
      | Inr temp_circuit \<Rightarrow>
          (case angles g of
             Inl e \<Rightarrow> Inl e
           | Inr (theta, phi, lambda) \<Rightarrow>
               let c1 = append_instr temp_circuit (RZGate phi) [0] [];
                   c2 = append_instr c1 SXGate [0] [];
                   c3 = append_instr c2 (RZGate theta) [0] [];
                   c4 = append_instr c3 SXGate [0] [];
                   c5 = append_instr c4 (RZGate lambda) [0] []
               in Inr (map (\<lambda>ins. (operation ins, [qubit])) (data c5))))"

text \<open>The loop \<open>for decomp_gate, decomp_qubits in ...: new_circuit.append(...)\<close>.\<close>

definition append_all :: "circuit \<Rightarrow> (gate \<times> nat list) list \<Rightarrow> circuit" where
  "append_all c gs = fold (\<lambda>(g, qs) c'. append_instr c' g qs []) gs c"

text \<open>
  \<open>temp_circuit.qubits.index(q)\<close>: the position of a qubit of the local circuit over
  \<open>k\<close> qubits; \<open>list.index\<close> raises \<open>ValueError\<close> for a qubit that is not there.
\<close>

definition qubit_index :: "nat \<Rightarrow> nat \<Rightarrow> error + nat" where
  "qubit_index k q = (if q < k then Inr q else Inl ValueError)"

text \<open>\<open>[qubits[temp_circuit.qubits.index(q)] for q in inst_qubits]\<close>.\<close>

fun map_qubits :: "nat list \<Rightarrow> nat list \<Rightarrow> error + nat list" where
  "map_qubits qs [] = Inr []"
| "map_qubits qs (q # rest) =
     (case qubit_index (length qs) q of
        Inl e \<Rightarrow> Inl e
      | Inr i \<Rightarrow>
          (case map_qubits qs rest of
             Inl e \<Rightarrow> Inl e
           | Inr r \<Rightarrow> Inr (qs ! i # r)))"

text \<open>
  The loop \<open>for inst in decomposed.data\<close> of the last branch of \<open>transform_circuit\<close>;
  \<open>qs\<close> are the qubits of the operator being replaced.
\<close>

fun transform_decomposed ::
    "euler_angles \<Rightarrow> nat list \<Rightarrow> instruction list \<Rightarrow> circuit \<Rightarrow> error + circuit" where
  "transform_decomposed angles qs [] new_circuit = Inr new_circuit"
| "transform_decomposed angles qs (inst # rest) new_circuit =
     (if length (qubits inst) = 1 then
        (case qubit_index (length qs) (qubits inst ! 0) of
           Inl e \<Rightarrow> Inl e
         | Inr i \<Rightarrow>
             (case decompose_single_qubit_gate angles (operation inst) (qs ! i) of
                Inl e \<Rightarrow> Inl e
              | Inr decomp_gates \<Rightarrow>
                  transform_decomposed angles qs rest (append_all new_circuit decomp_gates)))
      else
        (case map_qubits qs (qubits inst) of
           Inl e \<Rightarrow> Inl e
         | Inr mapped_qubits \<Rightarrow>
             transform_decomposed angles qs rest
               (append_instr new_circuit (operation inst) mapped_qubits [])))"

text \<open>The body of the loop \<open>for node in dag.op_nodes()\<close> for one node.\<close>

definition transform_node ::
    "euler_angles \<Rightarrow> (circuit \<Rightarrow> circuit) \<Rightarrow> instruction \<Rightarrow> circuit \<Rightarrow> error + circuit" where
  "transform_node angles decompose node new_circuit =
     (let qs = qubits node; g = operation node
      in if name g = ''measure'' then Inr new_circuit
         else if lower (name g) \<in> basis_gates then Inr (append_instr new_circuit g qs [])
         else if length qs = 1 then
           (case decompose_single_qubit_gate angles g (qs ! 0) of
              Inl e \<Rightarrow> Inl e
            | Inr decomposed_gates \<Rightarrow> Inr (append_all new_circuit decomposed_gates))
         else if name g = ''cx'' then Inr (append_instr new_circuit g qs [])
         else
           (case QuantumCircuit (int (length qs)) 0 of
              Inl e \<Rightarrow> Inl e
            | Inr c \<Rightarrow>
                let temp_circuit = append_instr c g [0..<length qs] [];
                    decomposed = decompose temp_circuit
                in transform_decomposed angles qs (data decomposed) new_circuit))"

fun transform_nodes ::
    "euler_angles \<Rightarrow> (circuit \<Rightarrow> circuit) \<Rightarrow> instruction list \<Rightarrow> circuit \<Rightarrow> error + circuit" where
  "transform_nodes angles decompose [] new_circuit = Inr new_circuit"
| "transform_nodes angles decompose (node # nodes) new_circuit =
     (case transform_node angles decompose node new_circuit of
        Inl e \<Rightarrow> Inl e
      | Inr c \<Rightarrow> transform_nodes angles decompose nodes c)"

text \<open>
  \<open>transform_circuit(circuit)\<close>. The operation nodes of the dependency graph built from
  a circuit come in the order of the circuit's instructions.
\<close>

definition transform_circuit ::
    "euler_angles \<Rightarrow> (circuit \<Rightarrow> circuit) \<Rightarrow> circuit \<Rightarrow> error + circuit" where
  "transform_circuit angles decompose c =
     (case QuantumCircuit (int (num_qubits c)) (int (num_clbits c)) of
        Inl e \<Rightarrow> Inl e
      | Inr new_circuit \<Rightarrow> transform_nodes angles decompose (data c) new_circuit)"

text \<open>\<open>get_gate_counts(circuit)\<close>: a dictionary from names to counts.\<close>

definition count_instruction :: "instruction \<Rightarrow> (string \<rightharpoonup> nat) \<Rightarrow> (string \<rightharpoonup> nat)" where
  "count_instruction ins counts =
     (let gate_name = lower (name (operation ins))
      in case counts gate_name of
           None \<Rightarrow> counts
         | Some v \<Rightarrow> counts(gate_name \<mapsto> v + 1))"

definition get_gate_counts :: "circuit \<Rightarrow> (string \<rightharpoonup> nat)" where
  "get_gate_counts c =
     fold count_instruction (data c) (\<lambda>g. if g \<in> basis_gates then Some 0 else None)"

definition total_count :: "(string \<rightharpoonup> nat) \<Rightarrow> nat" where
  "total_count counts = (\<Sum>g \<in> dom counts. the (counts g))"

text \<open>
  The product of the matrices of a list of single-qubit operators, in the order the
  circuit applies them (a later operator multiplies from the left).
\<close>

fun sequence_matrix :: "(gate \<times> nat list) list \<Rightarrow> mat2 option" where
  "sequence_matrix [] = Some I_mat"
| "sequence_matrix ((g, qs) # rest) =
     (case gate_matrix g of
        None \<Rightarrow> None
      | Some m \<Rightarrow>
          (case sequence_matrix rest of
             None \<Rightarrow> None
           | Some r \<Rightarrow> Some (mat_mul r m)))"

text \<open>Two operators of the library that are not in the basis.\<close>

definition CSwapGate :: gate where
  "CSwapGate = \<lparr>name = ''cswap'', params = []\<rparr>"

definition CCXGate :: gate where
  "CCXGate = \<lparr>name = ''ccx'', params = []\<rparr>"

text \<open>An instruction whose operator name, in lower case, is in the basis set.\<close>

definition in_basis :: "instruction \<Rightarrow> bool" where
  "in_basis ins \<longleftrightarrow> lower (name (operation ins)) \<in> basis_gates"

section \<open>Loops that can raise\<close>

lemma fold_err_cases:
  assumes "\<And>x s. x \<in> set xs \<Longrightarrow> f x s = (if bad x then Inl e else Inr (g x s))"
  shows "fold_err f xs s = (if \<exists>x\<in>set xs. bad x then Inl e else Inr (fold g xs s))"
  using assms
proof (induction xs arbitrary: s)
  case Nil
  then show ?case by simp
next
  case (Cons x xs)
  have step: "f x s = (if bad x then Inl e else Inr (g x s))"
    by (rule Cons.prems) simp
  have rest: "fold_err f xs s' = (if \<exists>x\<in>set xs. bad x then Inl e else Inr (fold g xs s'))" for s'
    by (rule Cons.IH) (simp add: Cons.prems)
  show ?case
    by (simp add: step rest)
qed

section \<open>Shape of the forward transform\<close>

lemma data_append_instr: "data (append_instr c g qs cs) = data c @ [Instr g qs cs]"
  by (simp add: append_instr_def)

lemma fold_append_instr:
  "fold (\<lambda>i c. append_instr c (g i) (qs i) (cs i)) xs c =
     c\<lparr>data := data c @ map (\<lambda>i. Instr (g i) (qs i) (cs i)) xs\<rparr>"
  by (induction xs arbitrary: c) (simp_all add: append_instr_def)

lemma create_cphase_gate_cases:
  "create_cphase_gate c control target k =
     (if 1024 \<le> k then Inl OverflowError
      else Inr (append_instr c (CPhaseGate (2 * pi / 2 ^ k)) [control, target] []))"
  by (simp add: create_cphase_gate_def two_pi_over_pow2_def)

lemma qft_step_eq:
  "qft_step n i c =
     (if i + 1024 \<le> n then Inl OverflowError
      else Inr (c\<lparr>data := data c @ qft_block n i\<rparr>))"
proof -
  have "qft_step n i c =
      (if \<exists>j\<in>set [i + 1..<n]. 1024 \<le> j - i + 1 then Inl OverflowError
       else Inr (fold (\<lambda>j c'. append_instr c' (CPhaseGate (2 * pi / 2 ^ (j - i + 1))) [j, i] [])
                   [i + 1..<n] (append_instr c HGate [i] [])))"
    unfolding qft_step_def
    by (rule fold_err_cases) (simp add: create_cphase_gate_cases)
  moreover have "(\<exists>j\<in>set [i + 1..<n]. 1024 \<le> j - i + 1) \<longleftrightarrow> i + 1024 \<le> n"
  proof
    assume "\<exists>j\<in>set [i + 1..<n]. 1024 \<le> j - i + 1"
    then show "i + 1024 \<le> n" by auto
  next
    assume "i + 1024 \<le> n"
    then have "n - 1 \<in> set [i + 1..<n]" and "1024 \<le> (n - 1) - i + 1"
      by auto
    then show "\<exists>j\<in>set [i + 1..<n]. 1024 \<le> j - i + 1" by blast
  qed
  moreover have
    "fold (\<lambda>j c'. append_instr c' (CPhaseGate (2 * pi / 2 ^ (j - i + 1))) [j, i] [])
       [i + 1..<n] (append_instr c HGate [i] []) = c\<lparr>data := data c @ qft_block n i\<rparr>"
    unfolding fold_append_instr qft_block_def
    by (simp add: append_instr_def)
  ultimately show ?thesis by simp
qed

lemma fold_qft_step:
  "fold_err (qft_step n) xs c =
     (if \<exists>i\<in>set xs. i + 1024 \<le> n then Inl OverflowError
      else Inr (c\<lparr>data := data c @ concat (map (qft_block n) xs)\<rparr>))"
proof -
  have a: "fold (\<lambda>i c. c\<lparr>data := data c @ qft_block n i\<rparr>) xs c =
      c\<lparr>data := data c @ concat (map (qft_block n) xs)\<rparr>"
    by (induction xs arbitrary: c) simp_all
  have b: "fold_err (qft_step n) xs c =
      (if \<exists>i\<in>set xs. i + 1024 \<le> n then Inl OverflowError
       else Inr (fold (\<lambda>i c. c\<lparr>data := data c @ qft_block n i\<rparr>) xs c))"
    by (rule fold_err_cases) (simp add: qft_step_eq)
  show ?thesis
    unfolding b a ..
qed

lemma construct_qft_nonneg:
  assumes "0 \<le> n" and "n < 1024"
  shows "construct_qft n = Inr \<lparr>num_qubits = nat n, num_clbits = 0, data = qft_data (nat n)\<rparr>"
proof -
  have d: "nat (n div 2) = nat n div 2"
    using assms(1) by (simp add: nat_div_distrib)
  have s: "\<And>i. nat n - i - 1 = nat n - 1 - i" by simp
  have ok: "\<not> (\<exists>i\<in>set [0..<nat n]. i + 1024 \<le> nat n)"
    using assms by auto
  show ?thesis
    using assms(1)
    by (simp add: construct_qft_def QuantumCircuit_def Let_def fold_qft_step ok
        fold_append_instr d s qft_data_def del: set_upt)
qed

lemma construct_qft_overflow:
  assumes "1024 \<le> n"
  shows "construct_qft n = Inl OverflowError"
proof -
  have "0 \<in> set [0..<nat n]" and "0 + 1024 \<le> nat n"
    using assms by auto
  then have bad: "\<exists>i\<in>set [0..<nat n]. i + 1024 \<le> nat n"
    by blast
  show ?thesis
    using assms
    by (simp add: construct_qft_def QuantumCircuit_def Let_def fold_qft_step bad del: set_upt)
qed

text \<open>
  Every instruction of the forward transform stays inside the register and names
  distinct qubits, so the index checks of the library's \<open>append\<close> hold for it.
\<close>

lemma qft_data_well_formed:
  assumes "ins \<in> set (qft_data n)"
  shows "distinct (qubits ins) \<and> (\<forall>q\<in>set (qubits ins). q < n)"
  using assms
  by (auto simp: qft_data_def qft_block_def Instr_def)

section \<open>The inverse transform\<close>

lemma inverse_data_fourier:
  "list_all fourier_op gs \<Longrightarrow> inverse_data gs = Inr (rev (map negate_angles gs))"
  by (induction gs) (auto simp: fourier_op_def gate_inverse_def negate_angles_def)

lemma fourier_op_qft_data: "list_all fourier_op (qft_data n)"
  by (auto simp: qft_data_def qft_block_def list_all_iff fourier_op_def Instr_def
      HGate_def CPhaseGate_def SwapGate_def)

lemma construct_inverse_qft_nonneg:
  assumes "0 \<le> n" and "n < 1024"
  shows "construct_inverse_qft n =
           Inr \<lparr>num_qubits = nat n, num_clbits = 0,
                data = rev (map negate_angles (qft_data (nat n)))\<rparr>"
  by (simp add: construct_inverse_qft_def construct_qft_nonneg [OF assms] inverse_def
      inverse_data_fourier [OF fourier_op_qft_data])

lemma construct_inverse_qft_overflow:
  assumes "1024 \<le> n"
  shows "construct_inverse_qft n = Inl OverflowError"
  by (simp add: construct_inverse_qft_def construct_qft_overflow [OF assms])

section \<open>Operators and their inverses\<close>

lemma set_unset_bit: "bit x q \<Longrightarrow> set_bit q (unset_bit q x) = (x::nat)"
  by (rule bit_eqI) (auto simp: bit_simps)

lemma unset_set_bit: "\<not> bit x q \<Longrightarrow> unset_bit q (set_bit q x) = (x::nat)"
  by (rule bit_eqI) (auto simp: bit_simps)

lemma apply1_mat_mul: "apply1 A q (apply1 B q psi) = apply1 (mat_mul A B) q psi"
proof
  fix x :: nat
  obtain a b c d where A: "A = (a, b, c, d)" by (cases A)
  obtain a' b' c' d' where B: "B = (a', b', c', d')" by (cases B)
  show "apply1 A q (apply1 B q psi) x = apply1 (mat_mul A B) q psi x"
  proof (cases "bit x q")
    case True
    then show ?thesis
      by (simp add: A B bit_simps set_unset_bit algebra_simps)
  next
    case False
    then show ?thesis
      by (simp add: A B bit_simps unset_set_bit algebra_simps)
  qed
qed

lemma apply1_I: "apply1 I_mat q psi = psi"
  by (rule ext) (simp add: I_mat_def)

lemma H_mat_square: "mat_mul H_mat H_mat = I_mat"
proof -
  have r: "complex_of_real (1 / sqrt 2) * complex_of_real (1 / sqrt 2) = 1 / 2"
    by (simp flip: of_real_mult)
  show ?thesis
    using r by (simp add: H_mat_def I_mat_def Let_def)
qed

lemma H_H: "apply1 H_mat q (apply1 H_mat q psi) = psi"
  by (simp add: apply1_mat_mul H_mat_square apply1_I)

lemma swap_swap: "swap_bits a b (swap_bits a b x) = x"
  by (rule bit_eqI) (auto simp: swap_bits_def Let_def bit_simps)

lemma cp_cp: "apply_cp (- theta) c t (apply_cp theta c t psi) = psi"
  by (rule ext) (simp add: apply_cp_def cis_mult)

lemma run_append:
  "run (xs @ ys) psi = (case run xs psi of None \<Rightarrow> None | Some phi \<Rightarrow> run ys phi)"
  by (induction xs arbitrary: psi) (auto split: option.splits)

lemma X_mat_square: "mat_mul X_mat X_mat = I_mat"
  by (simp add: X_mat_def I_mat_def)

lemma P_mat_inverse: "mat_mul (P_mat (- theta)) (P_mat theta) = I_mat"
  by (simp add: P_mat_def I_mat_def cis_mult)

lemma apply_swap_swap: "apply_swap a b (apply_swap a b psi) = psi"
  by (rule ext) (simp add: apply_swap_def swap_swap)

lemma gate_matrix_negate:
  assumes "name g \<in> {''h'', ''x'', ''swap'', ''cp'', ''p''}" and "gate_matrix g = Some m"
  shows "\<exists>m'. gate_matrix (g\<lparr>params := map uminus (params g)\<rparr>) = Some m' \<and>
              mat_mul m' m = I_mat"
  using assms
  by (auto simp: gate_matrix_def H_mat_square X_mat_square P_mat_inverse
      simp del: split_paired_Ex split: list.splits if_splits)

lemma instr_sem_negate:
  assumes "fourier_op ins" and "instr_sem ins = Some f"
  shows "\<exists>f'. instr_sem (negate_angles ins) = Some f' \<and> (\<forall>psi. f' (f psi) = psi)"
proof -
  let ?g = "operation ins"
  have nm: "name ?g \<in> {''h'', ''x'', ''swap'', ''cp'', ''p''}"
    using assms(1) by (simp add: fourier_op_def)
  consider q where "qubits ins = [q]" | a b where "qubits ins = [a, b]"
    using assms(2) by (auto simp: instr_sem_def Let_def split: list.splits)
  then show ?thesis
  proof cases
    case 1
    with assms(2) obtain m where m: "gate_matrix ?g = Some m" and f: "f = apply1 m q"
      by (auto simp: instr_sem_def Let_def)
    from gate_matrix_negate [OF nm m] obtain m' where
      m': "gate_matrix (?g\<lparr>params := map uminus (params ?g)\<rparr>) = Some m'"
      and mm: "mat_mul m' m = I_mat"
      by blast
    have "instr_sem (negate_angles ins) = Some (apply1 m' q)"
      using 1 m' by (simp add: instr_sem_def negate_angles_def Let_def)
    moreover have "\<forall>psi. apply1 m' q (f psi) = psi"
      by (simp add: f apply1_mat_mul mm apply1_I)
    ultimately show ?thesis by blast
  next
    case 2
    with assms(2) show ?thesis
      by (auto simp: instr_sem_def negate_angles_def Let_def apply_swap_swap cp_cp
          split: list.splits if_splits)
  qed
qed

lemma run_inverse:
  assumes "list_all (\<lambda>ins. fourier_op ins \<and> instr_sem ins \<noteq> None) gs"
  shows "run (gs @ rev (map negate_angles gs)) psi = Some psi"
  using assms
proof (induction gs arbitrary: psi)
  case Nil
  then show ?case by simp
next
  case (Cons g gs)
  then obtain f where f: "instr_sem g = Some f" and fo: "fourier_op g"
    by auto
  from instr_sem_negate [OF fo f] obtain f' where
    f': "instr_sem (negate_angles g) = Some f'" "\<And>psi. f' (f psi) = psi"
    by blast
  have "run (gs @ rev (map negate_angles gs)) (f psi) = Some (f psi)"
    using Cons by simp
  moreover have "run ((gs @ rev (map negate_angles gs)) @ [negate_angles g]) (f psi) =
      (case run (gs @ rev (map negate_angles gs)) (f psi) of
         None \<Rightarrow> None | Some phi \<Rightarrow> run [negate_angles g] phi)"
    by (rule run_append)
  ultimately have "run ((gs @ rev (map negate_angles gs)) @ [negate_angles g]) (f psi) = Some psi"
    by (simp add: f')
  then show ?case
    by (simp add: f)
qed

lemma instr_sem_qft_data: "list_all (\<lambda>ins. fourier_op ins \<and> instr_sem ins \<noteq> None) (qft_data n)"
  by (auto simp: qft_data_def qft_block_def list_all_iff fourier_op_def Instr_def
      HGate_def CPhaseGate_def SwapGate_def instr_sem_def gate_matrix_def)

section \<open>Shape of the adder\<close>

lemma bit_set_iff: "bit_set a i \<longleftrightarrow> bit a i"
  by (simp add: bit_set_def bit_iff_and_push_bit_not_eq_0)

lemma fold_cond_append_instr:
  "fold (\<lambda>i c. if P i then append_instr c (g i) (qs i) (cs i) else c) xs c =
     c\<lparr>data := data c @ map (\<lambda>i. Instr (g i) (qs i) (cs i)) (filter P xs)\<rparr>"
  by (induction xs arbitrary: c) (simp_all add: append_instr_def)

lemma fold_cond_add:
  "fold (\<lambda>j (acc::real). if P j then acc + f j else acc) xs acc =
     acc + sum_list (map f (filter P xs))"
  by (induction xs arbitrary: acc) simp_all

lemma phase_angle_sum:
  assumes "i + 1 < 1024"
  shows "phase_angle b i = Inr (\<Sum>j | j \<le> i \<and> bit b j. 2 * pi / 2 ^ (i - j + 1))"
proof -
  have "phase_angle b i =
      (if \<exists>j\<in>set [0..<i + 1]. False then Inl OverflowError
       else Inr (fold (\<lambda>j angle. if bit b j then angle + 2 * pi / 2 ^ (i - j + 1) else angle)
                   [0..<i + 1] 0))"
    unfolding phase_angle_def bit_set_iff
    using assms by (intro fold_err_cases) (auto simp: two_pi_over_pow2_def)
  then have "phase_angle b i =
      Inr (sum_list (map (\<lambda>j. 2 * pi / 2 ^ (i - j + 1)) (filter (\<lambda>j. bit b j) [0..<i + 1])))"
    by (simp add: fold_cond_add)
  also have "sum_list (map (\<lambda>j. 2 * pi / 2 ^ (i - j + 1)) (filter (\<lambda>j. bit b j) [0..<i + 1])) =
      sum (\<lambda>j. 2 * pi / 2 ^ (i - j + 1)) (set (filter (\<lambda>j. bit b j) [0..<i + 1]))"
    by (rule sum_list_distinct_conv_sum_set) simp
  also have "set (filter (\<lambda>j. bit b j) [0..<i + 1]) = {j. j \<le> i \<and> bit b j}"
    by (auto simp del: upt_Suc)
  finally show ?thesis .
qed

lemma phase_angle_overflow:
  assumes "bit b j" and "j + 1024 \<le> i + 1"
  shows "phase_angle b i = Inl OverflowError"
proof -
  have "phase_angle b i =
      (if \<exists>j\<in>set [0..<i + 1]. bit b j \<and> 1024 \<le> i - j + 1 then Inl OverflowError
       else Inr (fold (\<lambda>j angle. if bit b j then angle + 2 * pi / 2 ^ (i - j + 1) else angle)
                   [0..<i + 1] 0))"
    unfolding phase_angle_def bit_set_iff
    by (intro fold_err_cases) (simp add: two_pi_over_pow2_def)
  moreover have "\<exists>j\<in>set [0..<i + 1]. bit b j \<and> 1024 \<le> i - j + 1"
    using assms by (intro bexI [of _ j]) auto
  ultimately show ?thesis by simp
qed

lemma binary_to_phase_angles_eq:
  assumes "nat n < 1024"
  shows "binary_to_phase_angles b n =
           Inr (map (\<lambda>i. \<Sum>j | j \<le> i \<and> bit b j. 2 * pi / 2 ^ (i - j + 1)) [0..<nat n])"
proof -
  let ?angle = "\<lambda>i. \<Sum>j | j \<le> i \<and> bit b j. 2 * pi / 2 ^ (i - j + 1)"
  have "binary_to_phase_angles b n =
      (if \<exists>i\<in>set [0..<nat n]. False then Inl OverflowError
       else Inr (fold (\<lambda>i angles. angles @ [?angle i]) [0..<nat n] []))"
    unfolding binary_to_phase_angles_def
    using assms by (intro fold_err_cases) (simp add: phase_angle_sum)
  moreover have "fold (\<lambda>i angles. angles @ [?angle i]) xs acc = acc @ map ?angle xs" for xs acc
    by (induction xs arbitrary: acc) simp_all
  ultimately show ?thesis by simp
qed

lemma measure_range:
  "measure c [0..<n] [0..<n] = Inr (c\<lparr>data := data c @ map (\<lambda>i. Instr Measure [i] [i]) [0..<n]\<rparr>)"
proof -
  have "fold (\<lambda>(q, cl) c'. append_instr c' Measure [q] [cl]) (zip xs xs) c =
      c\<lparr>data := data c @ map (\<lambda>i. Instr Measure [i] [i]) xs\<rparr>" for xs :: "nat list" and c
    by (induction xs arbitrary: c) (simp_all add: append_instr_def)
  then show ?thesis
    by (simp add: measure_def)
qed

lemma pow2_nonneg: "0 \<le> n \<Longrightarrow> pow2 n = 2 ^ nat n"
  by (simp add: pow2_def)

lemma phase_loop:
  "fold (\<lambda>i c. append_instr c (PhaseGate (map f [0..<n] ! i)) [i] []) [0..<n] c =
     c\<lparr>data := data c @ map (\<lambda>i. Instr (PhaseGate (f i)) [i] []) [0..<n]\<rparr>"
  unfolding fold_append_instr by simp

lemma construct_adder_in_range:
  assumes "0 \<le> n" and "n < 1024" and "a < 2 ^ nat n" and "b < 2 ^ nat n"
  shows "construct_adder a b n =
           Inr \<lparr>num_qubits = nat n, num_clbits = nat n,
                data =
                  map (\<lambda>i. Instr XGate [i] []) (filter (\<lambda>i. bit a i) [0..<nat n]) @
                  qft_data (nat n) @
                  map (\<lambda>i. Instr (PhaseGate (\<Sum>j | j \<le> i \<and> bit b j. 2 * pi / 2 ^ (i - j + 1)))
                             [i] []) [0..<nat n] @
                  rev (map negate_angles (qft_data (nat n))) @
                  map (\<lambda>i. Instr Measure [i] [i]) [0..<nat n]\<rparr>"
proof -
  have ra: "\<not> pow2 n \<le> real_of_int a" and rb: "\<not> pow2 n \<le> real_of_int b"
    using assms(3,4) by (simp_all add: pow2_nonneg [OF assms(1)] not_le)
  have nn: "nat n < 1024"
    using assms(1,2) by simp
  show ?thesis
    using assms(1) ra rb
    by (simp add: construct_adder_def construct_qft_nonneg [OF assms(1,2)]
        construct_inverse_qft_nonneg [OF assms(1,2)]
        QuantumCircuit_def Let_def bit_set_iff fold_cond_append_instr compose_def
        binary_to_phase_angles_eq [OF nn] phase_loop measure_range)
qed

lemma construct_adder_overflow:
  assumes "1024 \<le> n" and "a < 2 ^ nat n" and "b < 2 ^ nat n"
  shows "construct_adder a b n = Inl OverflowError"
proof -
  have n0: "0 \<le> n" using assms(1) by simp
  have ra: "\<not> pow2 n \<le> real_of_int a" and rb: "\<not> pow2 n \<le> real_of_int b"
    using assms(2,3) by (simp_all add: pow2_nonneg [OF n0] not_le)
  show ?thesis
    using n0 ra rb
    by (simp add: construct_adder_def construct_qft_overflow [OF assms(1)] QuantumCircuit_def
        Let_def)
qed

lemma construct_adder_out_of_range:
  assumes "0 \<le> n" and "2 ^ nat n \<le> a \<or> 2 ^ nat n \<le> b"
  shows "construct_adder a b n = Inl ValueError"
proof -
  have "pow2 n \<le> real_of_int a \<or> pow2 n \<le> real_of_int b"
    using assms(2) by (simp add: pow2_nonneg [OF assms(1)])
  then show ?thesis
    by (auto simp: construct_adder_def)
qed

declare bit_length_nat.simps [simp del]

lemma bit_length_nat_le: "bit_length_nat k \<le> m \<longleftrightarrow> k < 2 ^ m"
proof (induction k arbitrary: m rule: bit_length_nat.induct)
  case (1 k)
  show ?case
  proof (cases "k = 0")
    case True
    then show ?thesis by (simp add: bit_length_nat.simps)
  next
    case False
    show ?thesis
    proof (cases m)
      case 0
      with False show ?thesis by (simp add: bit_length_nat.simps [of k])
    next
      case (Suc m')
      have "bit_length_nat k \<le> Suc m' \<longleftrightarrow> bit_length_nat (k div 2) \<le> m'"
        using False by (simp add: bit_length_nat.simps [of k])
      also have "\<dots> \<longleftrightarrow> k div 2 < 2 ^ m'"
        using "1.IH" [OF False] by simp
      also have "\<dots> \<longleftrightarrow> k < 2 ^ Suc m'"
        by (simp add: less_mult_imp_div_less div_less_iff_less_mult mult.commute)
      finally show ?thesis using Suc by simp
    qed
  qed
qed

lemma bit_length_le:
  assumes "0 \<le> x"
  shows "bit_length x \<le> int m \<longleftrightarrow> x < 2 ^ m"
proof -
  have "bit_length x \<le> int m \<longleftrightarrow> nat x < 2 ^ m"
    using assms by (simp add: bit_length_def bit_length_nat_le)
  also have "\<dots> \<longleftrightarrow> x < 2 ^ m"
    using assms by (simp add: nat_less_iff)
  finally show ?thesis .
qed

lemma bit_length_nonneg: "0 \<le> bit_length x"
  by (simp add: bit_length_def)

section \<open>The basis transformer\<close>

lemma decompose_single_qubit_gate_emits:
  assumes "angles g = Inr (theta, phi, lambda)"
  shows "decompose_single_qubit_gate angles g q =
           Inr [(RZGate phi, [q]), (SXGate, [q]), (RZGate theta, [q]), (SXGate, [q]),
                (RZGate lambda, [q])]"
  using assms
  by (simp add: decompose_single_qubit_gate_def QuantumCircuit_def append_instr_def Instr_def)

lemma SX_mat_square: "mat_mul SX_mat SX_mat = X_mat"
  by (simp add: SX_mat_def X_mat_def complex_eq_iff)

lemma RZ_mat_zero: "RZ_mat 0 = I_mat"
  by (simp add: RZ_mat_def I_mat_def)

lemma RY_mat_zero: "RY_mat 0 = I_mat"
  by (simp add: RY_mat_def I_mat_def)

lemma mat_mul_I [simp]: "mat_mul I_mat A = A" "mat_mul A I_mat = A"
  by (cases A; simp add: I_mat_def)+

lemma phase_equiv_refl: "phase_equiv A A"
  unfolding phase_equiv_def by (rule exI [of _ 1]) (cases A; simp)

lemma X_not_I: "\<not> phase_equiv X_mat I_mat"
  by (auto simp: phase_equiv_def X_mat_def I_mat_def)

lemma SX_RZ_SX:
  "mat_mul SX_mat (mat_mul (RZ_mat theta) SX_mat) =
     (complex_of_real (sin (theta / 2)), complex_of_real (cos (theta / 2)),
      complex_of_real (cos (theta / 2)), - complex_of_real (sin (theta / 2)))"
  by (simp add: SX_mat_def RZ_mat_def complex_eq_iff field_simps)

lemma mat_mul_assoc: "mat_mul (mat_mul A B) C = mat_mul A (mat_mul B C)"
  by (cases A; cases B; cases C) (simp add: algebra_simps)

lemma library_wiring:
  "mat_mul (RZ_mat (phi + pi)) (mat_mul SX_mat (mat_mul (RZ_mat (theta + pi))
      (mat_mul SX_mat (RZ_mat lambda)))) =
   mat_scale (- \<i>) (mat_mul (RZ_mat phi) (mat_mul (RY_mat theta) (RZ_mat lambda)))"
proof -
  have s: "sin ((theta + pi) / 2) = cos (theta / 2)" "cos ((theta + pi) / 2) = - sin (theta / 2)"
    by (simp_all add: add_divide_distrib sin_add cos_add)
  have c: "cis ((- phi - pi) / 2) = - \<i> * cis (- (phi / 2))" "cis ((phi + pi) / 2) = \<i> * cis (phi / 2)"
    by (simp_all add: complex_eq_iff add_divide_distrib sin_add cos_add minus_divide_left [symmetric]
        diff_divide_distrib sin_diff cos_diff)
  have "mat_mul (RZ_mat (phi + pi)) (mat_mul SX_mat (mat_mul (RZ_mat (theta + pi))
      (mat_mul SX_mat (RZ_mat lambda)))) =
      mat_mul (RZ_mat (phi + pi)) (mat_mul (mat_mul SX_mat (mat_mul (RZ_mat (theta + pi)) SX_mat))
        (RZ_mat lambda))"
    by (simp only: mat_mul_assoc)
  also have "\<dots> = mat_scale (- \<i>) (mat_mul (RZ_mat phi) (mat_mul (RY_mat theta) (RZ_mat lambda)))"
    unfolding SX_RZ_SX s
    by (simp add: RZ_mat_def [of "phi + pi"] c) (simp add: RZ_mat_def RY_mat_def)
  finally show ?thesis .
qed

lemma zyz_identity_sin:
  assumes "phase_equiv (mat_mul (RZ_mat phi) (mat_mul (RY_mat theta) (RZ_mat lambda))) I_mat"
  shows "sin (theta / 2) = 0"
proof -
  from assms obtain k where
    "mat_mul (RZ_mat phi) (mat_mul (RY_mat theta) (RZ_mat lambda)) = mat_scale k I_mat"
    unfolding phase_equiv_def by blast
  then have "cis (- phi / 2) * (- complex_of_real (sin (theta / 2)) * cis (lambda / 2)) = 0"
    by (simp add: RZ_mat_def RY_mat_def I_mat_def)
  then show ?thesis
    by (simp add: cis_neq_zero)
qed

lemma emitted_not_identity:
  assumes "sin (theta / 2) = 0"
  shows "\<not> phase_equiv
           (mat_mul (RZ_mat lambda) (mat_mul SX_mat (mat_mul (RZ_mat theta)
              (mat_mul SX_mat (RZ_mat phi))))) I_mat"
proof
  assume "phase_equiv
           (mat_mul (RZ_mat lambda) (mat_mul SX_mat (mat_mul (RZ_mat theta)
              (mat_mul SX_mat (RZ_mat phi))))) I_mat"
  then obtain k where k: "cmod k = 1" and
    e: "mat_mul (RZ_mat lambda) (mat_mul SX_mat (mat_mul (RZ_mat theta)
              (mat_mul SX_mat (RZ_mat phi)))) = mat_scale k I_mat"
    unfolding phase_equiv_def by blast
  have "mat_mul (RZ_mat lambda) (mat_mul SX_mat (mat_mul (RZ_mat theta)
              (mat_mul SX_mat (RZ_mat phi)))) =
        mat_mul (RZ_mat lambda) (mat_mul (mat_mul SX_mat (mat_mul (RZ_mat theta) SX_mat))
              (RZ_mat phi))"
    by (simp only: mat_mul_assoc)
  also have "\<dots> = mat_mul (RZ_mat lambda)
      (mat_mul (0, complex_of_real (cos (theta / 2)), complex_of_real (cos (theta / 2)), 0)
         (RZ_mat phi))"
    by (simp add: SX_RZ_SX assms)
  finally have "k = 0"
    using e by (simp add: RZ_mat_def I_mat_def)
  with k show False by simp
qed

lemma lower_names:
  "lower ''cswap'' = ''cswap''" "lower ''ccx'' = ''ccx''" "lower ''cx'' = ''cx''"
  by (simp_all add: lower_def lower_char_def)

lemma basis_names:
  "''cswap'' \<notin> basis_gates" "''ccx'' \<notin> basis_gates" "''cx'' \<in> basis_gates"
  by (simp_all add: basis_gates_def)

lemma transform_cswap:
  assumes "decompose \<lparr>num_qubits = 3, num_clbits = 0, data = [Instr CSwapGate [0, 1, 2] []]\<rparr> =
             \<lparr>num_qubits = 3, num_clbits = 0,
              data = [Instr CXGate [2, 1] [], Instr CCXGate [0, 1, 2] [], Instr CXGate [2, 1] []]\<rparr>"
  shows "transform_circuit angles decompose
           \<lparr>num_qubits = 3, num_clbits = 0, data = [Instr CSwapGate [0, 1, 2] []]\<rparr> =
         Inr \<lparr>num_qubits = 3, num_clbits = 0,
              data = [Instr CXGate [2, 1] [], Instr CCXGate [0, 1, 2] [], Instr CXGate [2, 1] []]\<rparr>"
proof -
  have u: "[0..<3::nat] = [0, 1, 2]"
    by (simp add: upt_rec)
  have t: "append_instr \<lparr>num_qubits = 3, num_clbits = 0, data = []\<rparr> CSwapGate [0, 1, 2] [] =
      \<lparr>num_qubits = 3, num_clbits = 0, data = [Instr CSwapGate [0, 1, 2] []]\<rparr>"
    by (simp add: append_instr_def)
  show ?thesis
    by (simp add: transform_circuit_def QuantumCircuit_def transform_node_def Let_def
        Instr_def CSwapGate_def lower_names basis_names u t [unfolded Instr_def CSwapGate_def]
        assms [unfolded Instr_def CSwapGate_def CXGate_def CCXGate_def, simplified] CXGate_def CCXGate_def qubit_index_def
        append_instr_def numeral_2_eq_2 [symmetric])
qed


lemma count_instruction_apply:
  "count_instruction x m g =
     (case m g of
        None \<Rightarrow> None
      | Some v \<Rightarrow> Some (v + (if lower (name (operation x)) = g then 1 else 0)))"
  by (simp add: count_instruction_def Let_def split: option.splits)

lemma fold_count_instruction:
  "fold count_instruction xs m g =
     (case m g of
        None \<Rightarrow> None
      | Some v \<Rightarrow> Some (v + length (filter (\<lambda>ins. lower (name (operation ins)) = g) xs)))"
proof (induction xs arbitrary: m)
  case Nil
  then show ?case by (simp split: option.splits)
next
  case (Cons x xs)
  have "fold count_instruction (x # xs) m g = fold count_instruction xs (count_instruction x m) g"
    by simp
  also have "\<dots> =
      (case count_instruction x m g of
         None \<Rightarrow> None
       | Some v \<Rightarrow> Some (v + length (filter (\<lambda>ins. lower (name (operation ins)) = g) xs)))"
    by (rule Cons.IH)
  finally have "fold count_instruction (x # xs) m g =
      (case count_instruction x m g of
         None \<Rightarrow> None
       | Some v \<Rightarrow> Some (v + length (filter (\<lambda>ins. lower (name (operation ins)) = g) xs)))" .
  moreover have "count_instruction x m g =
      (case m g of
         None \<Rightarrow> None
       | Some v \<Rightarrow> Some (v + (if lower (name (operation x)) = g then 1 else 0)))"
    by (rule count_instruction_apply)
  ultimately show ?case
    by (cases "m g") auto
qed

lemma get_gate_counts_eq:
  "get_gate_counts c g =
     (if g \<in> basis_gates
      then Some (length (filter (\<lambda>ins. lower (name (operation ins)) = g) (data c)))
      else None)"
  by (simp add: get_gate_counts_def fold_count_instruction)

lemma dom_get_gate_counts: "dom (get_gate_counts c) = basis_gates"
  by (auto simp: get_gate_counts_eq dom_def)

lemma finite_basis_gates: "finite basis_gates"
  by (simp add: basis_gates_def)

lemma sum_count_by_key:
  assumes "finite S"
  shows "(\<Sum>g\<in>S. length (filter (\<lambda>x. key x = g) xs)) = length (filter (\<lambda>x. key x \<in> S) xs)"
proof (induction xs)
  case Nil
  then show ?case by simp
next
  case (Cons x xs)
  have "(\<Sum>g\<in>S. length (filter (\<lambda>x. key x = g) (x # xs))) =
      (\<Sum>g\<in>S. (if key x = g then 1 else 0) + length (filter (\<lambda>x. key x = g) xs))"
    by (rule sum.cong) simp_all
  also have "\<dots> = (\<Sum>g\<in>S. if key x = g then 1 else 0) +
      (\<Sum>g\<in>S. length (filter (\<lambda>x. key x = g) xs))"
    by (simp add: sum.distrib)
  also have "(\<Sum>g\<in>S. if key x = g then 1 else 0) = (if key x \<in> S then 1 else (0::nat))"
    using assms by simp
  finally show ?case
    using Cons.IH by simp
qed

lemma total_count_get_gate_counts:
  "total_count (get_gate_counts c) =
     length (filter (\<lambda>ins. lower (name (operation ins)) \<in> basis_gates) (data c))"
proof -
  have "total_count (get_gate_counts c) =
      (\<Sum>g\<in>basis_gates. length (filter (\<lambda>ins. lower (name (operation ins)) = g) (data c)))"
    unfolding total_count_def dom_get_gate_counts
    by (rule sum.cong) (simp_all add: get_gate_counts_eq)
  then show ?thesis
    by (simp add: sum_count_by_key [OF finite_basis_gates])
qed

lemma lower_rz_sx: "lower ''rz'' = ''rz''" "lower ''sx'' = ''sx''"
  by (simp_all add: lower_def lower_char_def)

lemma decompose_single_qubit_gate_basis:
  assumes "decompose_single_qubit_gate angles g q = Inr ds"
  shows "list_all (\<lambda>(g', qs). lower (name g') \<in> basis_gates) ds"
  using assms
  by (auto simp: decompose_single_qubit_gate_def QuantumCircuit_def append_instr_def Instr_def
      RZGate_def SXGate_def lower_rz_sx basis_gates_def split: sum.splits prod.splits)

lemma data_append_all:
  "data (append_all c ds) = data c @ map (\<lambda>(g, qs). Instr g qs []) ds"
proof -
  have "data (fold (\<lambda>(g, qs) c'. append_instr c' g qs []) ds c) =
      data c @ map (\<lambda>(g, qs). Instr g qs []) ds"
    by (induction ds arbitrary: c) (auto simp: append_instr_def)
  then show ?thesis
    by (simp add: append_all_def)
qed

lemma append_all_basis:
  assumes "list_all in_basis (data c)"
    and "list_all (\<lambda>(g', qs). lower (name g') \<in> basis_gates) ds"
  shows "list_all in_basis (data (append_all c ds))"
  using assms
  by (auto simp: data_append_all list_all_iff in_basis_def Instr_def)

lemma transform_decomposed_basis:
  assumes "\<forall>ins\<in>set insts. length (qubits ins) = 1 \<or> in_basis ins"
    and "list_all in_basis (data new)"
    and "transform_decomposed angles qs insts new = Inr out"
  shows "list_all in_basis (data out)"
  using assms
proof (induction insts arbitrary: new)
  case Nil
  then show ?case by simp
next
  case (Cons inst rest)
  show ?case
  proof (cases "length (qubits inst) = 1")
    case True
    with Cons.prems(3) obtain i ds where
      ds: "decompose_single_qubit_gate angles (operation inst) (qs ! i) = Inr ds"
      and r: "transform_decomposed angles qs rest (append_all new ds) = Inr out"
      by (auto split: sum.splits)
    have "list_all in_basis (data (append_all new ds))"
      using Cons.prems(2) decompose_single_qubit_gate_basis [OF ds] by (rule append_all_basis)
    with Cons.IH [OF _ _ r] Cons.prems(1) show ?thesis by simp
  next
    case False
    with Cons.prems(3) obtain mapped where
      r: "transform_decomposed angles qs rest
            (append_instr new (operation inst) mapped []) = Inr out"
      by (auto split: sum.splits)
    have "in_basis inst"
      using Cons.prems(1) False by simp
    then have "list_all in_basis (data (append_instr new (operation inst) mapped []))"
      using Cons.prems(2) by (simp add: append_instr_def in_basis_def Instr_def list_all_iff)
    with Cons.IH [OF _ _ r] Cons.prems(1) show ?thesis by simp
  qed
qed

lemma transform_node_basis:
  assumes "\<And>t. \<forall>ins\<in>set (data (decompose t)). length (qubits ins) = 1 \<or> in_basis ins"
    and "list_all in_basis (data new)"
    and "transform_node angles decompose node new = Inr out"
  shows "list_all in_basis (data out)"
proof -
  let ?g = "operation node" and ?qs = "qubits node"
  consider (m) "name ?g = ''measure''"
    | (b) "name ?g \<noteq> ''measure''" "lower (name ?g) \<in> basis_gates"
    | (s) "name ?g \<noteq> ''measure''" "lower (name ?g) \<notin> basis_gates" "length ?qs = 1"
    | (d) "name ?g \<noteq> ''measure''" "lower (name ?g) \<notin> basis_gates" "length ?qs \<noteq> 1"
    by blast
  then show ?thesis
  proof cases
    case m
    with assms(2,3) show ?thesis by (simp add: transform_node_def)
  next
    case b
    with assms(2,3) show ?thesis
      by (auto simp: transform_node_def append_instr_def in_basis_def Instr_def)
  next
    case s
    with assms(3) obtain ds where
      ds: "decompose_single_qubit_gate angles ?g (?qs ! 0) = Inr ds" and o: "out = append_all new ds"
      by (auto simp: transform_node_def Let_def split: sum.splits)
    show ?thesis
      unfolding o using assms(2) decompose_single_qubit_gate_basis [OF ds] by (rule append_all_basis)
  next
    case d
    have cx: "name ?g \<noteq> ''cx''"
      using d(2) by (auto simp: lower_def lower_char_def basis_gates_def)
    from d cx assms(3) have
      "transform_decomposed angles ?qs
         (data (decompose (append_instr \<lparr>num_qubits = length ?qs, num_clbits = 0, data = []\<rparr>
            ?g [0..<length ?qs] []))) new = Inr out"
      by (simp add: transform_node_def Let_def QuantumCircuit_def)
    with assms(1,2) show ?thesis
      by (rule transform_decomposed_basis)
  qed
qed

lemma transform_nodes_basis:
  assumes "\<And>t. \<forall>ins\<in>set (data (decompose t)). length (qubits ins) = 1 \<or> in_basis ins"
    and "list_all in_basis (data new)"
    and "transform_nodes angles decompose nodes new = Inr out"
  shows "list_all in_basis (data out)"
  using assms(2,3)
proof (induction nodes arbitrary: new)
  case Nil
  then show ?case by simp
next
  case (Cons node nodes)
  from Cons.prems(2) obtain c where
    c: "transform_node angles decompose node new = Inr c"
    and r: "transform_nodes angles decompose nodes c = Inr out"
    by (auto split: sum.splits)
  have "list_all in_basis (data c)"
    using assms(1) Cons.prems(1) c by (rule transform_node_basis)
  then show ?case
    using r by (rule Cons.IH)
qed

lemma transform_circuit_basis:
  assumes "\<And>t. \<forall>ins\<in>set (data (decompose t)). length (qubits ins) = 1 \<or> in_basis ins"
    and "transform_circuit angles decompose c = Inr out"
  shows "list_all in_basis (data out)"
proof -
  from assms(2) have t:
    "transform_nodes angles decompose (data c)
       \<lparr>num_qubits = num_qubits c, num_clbits = num_clbits c, data = []\<rparr> = Inr out"
    by (simp add: transform_circuit_def QuantumCircuit_def)
  have e: "list_all in_basis
      (data \<lparr>num_qubits = num_qubits c, num_clbits = num_clbits c, data = []\<rparr>)"
    by simp
  show ?thesis
    using assms(1) e t by (rule transform_nodes_basis)
qed

lemma in_basis_not_measure: "in_basis ins \<Longrightarrow> name (operation ins) \<noteq> ''measure''"
  by (auto simp: in_basis_def lower_def lower_char_def basis_gates_def)

lemma total_count_transformed:
  assumes "\<And>t. \<forall>ins\<in>set (data (decompose t)). length (qubits ins) = 1 \<or> in_basis ins"
    and "transform_circuit angles decompose c = Inr out"
  shows "total_count (get_gate_counts out) = length (data out)"
proof -
  have "list_all in_basis (data out)"
    using assms by (rule transform_circuit_basis)
  then have "filter (\<lambda>ins. lower (name (operation ins)) \<in> basis_gates) (data out) = data out"
    by (simp add: list_all_iff in_basis_def)
  then show ?thesis
    by (simp add: total_count_get_gate_counts)
qed

section \<open>The claims\<close>

text \<open>
  C4 as stated fails at \<open>n = 1024\<close>: the first pass of the outer loop reaches
  \<open>k = 1024\<close>, where \<open>2 * np.pi / (2 ** k)\<close> raises \<open>OverflowError\<close>, and
  \<open>construct_qft(1024)\<close> returns no circuit.
\<close>

theorem construct_qft_overflows_at_1024:
  "(0::int) < 1024 \<and> construct_qft 1024 = Inl OverflowError \<and>
   \<not> (\<exists>c. construct_qft 1024 = Inr c)"
  by (simp add: construct_qft_overflow)

text \<open>
  C4, as amended. For every \<open>n\<close> with \<open>0 < n < 1024\<close>, \<open>construct_qft(n)\<close> returns a
  circuit over \<open>n\<close> qubits and no classical bits whose gate sequence is: for each qubit
  \<open>i\<close> from \<open>0\<close> to \<open>n - 1\<close>, a Hadamard on \<open>i\<close>, then for each \<open>j\<close> with
  \<open>i < j < n\<close> in increasing order a controlled phase with control \<open>j\<close>, target \<open>i\<close>
  and angle \<open>2 pi / 2 ^ (j - i + 1)\<close>; then for each \<open>i\<close> below the integer half of
  \<open>n\<close> (\<open>n_qubits // 2\<close> in the source) a swap of qubit \<open>i\<close> with qubit
  \<open>n - 1 - i\<close>. For every \<open>n \<ge> 1024\<close> it raises \<open>OverflowError\<close>.
\<close>

theorem construct_qft_gate_sequence:
  assumes "0 < n"
  shows "if n < 1024
         then construct_qft n =
                Inr \<lparr>num_qubits = nat n, num_clbits = 0,
                     data =
                       concat (map (\<lambda>i. Instr HGate [i] [] #
                                        map (\<lambda>j. Instr (CPhaseGate (2 * pi / 2 ^ (j - i + 1)))
                                                   [j, i] [])
                                          [i + 1..<nat n])
                                 [0..<nat n]) @
                       map (\<lambda>i. Instr SwapGate [i, nat n - 1 - i] []) [0..<nat n div 2]\<rparr>
         else construct_qft n = Inl OverflowError"
proof (cases "n < 1024")
  case True
  have "0 \<le> n" using assms by simp
  from construct_qft_nonneg [OF this True] True show ?thesis
    by (simp add: qft_data_def qft_block_def [abs_def])
next
  case False
  then have "1024 \<le> n" by simp
  from construct_qft_overflow [OF this] False show ?thesis by simp
qed

theorem construct_qft_gate_sequence_witness:
  "(0::int) < 3 \<and>
   construct_qft 3 =
     Inr \<lparr>num_qubits = 3, num_clbits = 0,
          data = [Instr HGate [0] [],
                  Instr (CPhaseGate (pi / 2)) [1, 0] [],
                  Instr (CPhaseGate (pi / 4)) [2, 0] [],
                  Instr HGate [1] [],
                  Instr (CPhaseGate (pi / 2)) [2, 1] [],
                  Instr HGate [2] [],
                  Instr SwapGate [0, 2] []]\<rparr>"
  using construct_qft_gate_sequence [of 3]
  by (simp add: upt_rec Instr_def)

text \<open>
  C5 as stated fails at \<open>n = 1024\<close>: \<open>construct_qft(1024)\<close> raises \<open>OverflowError\<close>,
  so \<open>construct_inverse_qft(1024)\<close> raises it too and there is no circuit to compose.
\<close>

theorem construct_inverse_qft_overflows_at_1024:
  "(0::int) < 1024 \<and> construct_inverse_qft 1024 = Inl OverflowError \<and>
   \<not> (\<exists>c. construct_inverse_qft 1024 = Inr c)"
  by (simp add: construct_inverse_qft_overflow)

text \<open>
  C5, as amended. For every \<open>n\<close> with \<open>0 < n < 1024\<close>, \<open>construct_inverse_qft(n)\<close>
  is the gate-by-gate inverse of \<open>construct_qft(n)\<close>: over the same registers, the
  same instructions with every angle negated, in reversed order; and running the
  forward circuit and then the inverse circuit gives back every register state (so
  every basis state). The identity is exact, for any values of the angles. For every
  \<open>n \<ge> 1024\<close> both functions raise \<open>OverflowError\<close>.
\<close>

theorem construct_inverse_qft_inverts:
  assumes "0 < n"
  shows "if n < 1024
         then \<exists>qft iqft.
                construct_qft n = Inr qft \<and> construct_inverse_qft n = Inr iqft \<and>
                num_qubits iqft = nat n \<and> num_clbits iqft = 0 \<and>
                data iqft = rev (map negate_angles (data qft)) \<and>
                (\<forall>psi. run (data qft @ data iqft) psi = Some psi)
         else construct_qft n = Inl OverflowError \<and>
              construct_inverse_qft n = Inl OverflowError"
proof (cases "n < 1024")
  case True
  have "0 \<le> n" using assms by simp
  then show ?thesis
    using True
    by (simp add: construct_qft_nonneg construct_inverse_qft_nonneg
        run_inverse [OF instr_sem_qft_data])
next
  case False
  then have "1024 \<le> n" by simp
  then show ?thesis
    using False by (simp add: construct_qft_overflow construct_inverse_qft_overflow)
qed

theorem construct_inverse_qft_inverts_witness:
  "(0::int) < 2 \<and>
   construct_inverse_qft 2 =
     Inr \<lparr>num_qubits = 2, num_clbits = 0,
          data = [Instr SwapGate [0, 1] [],
                  Instr HGate [1] [],
                  Instr (CPhaseGate (- (pi / 2))) [1, 0] [],
                  Instr HGate [0] []]\<rparr> \<and>
   (\<forall>psi. run ([Instr HGate [0] [],
                Instr (CPhaseGate (pi / 2)) [1, 0] [],
                Instr HGate [1] [],
                Instr SwapGate [0, 1] [],
                Instr SwapGate [0, 1] [],
                Instr HGate [1] [],
                Instr (CPhaseGate (- (pi / 2))) [1, 0] [],
                Instr HGate [0] []]) psi = Some psi)"
proof -
  have q: "construct_qft 2 =
      Inr \<lparr>num_qubits = 2, num_clbits = 0,
           data = [Instr HGate [0] [], Instr (CPhaseGate (pi / 2)) [1, 0] [],
                   Instr HGate [1] [], Instr SwapGate [0, 1] []]\<rparr>"
    by (simp add: construct_qft_nonneg qft_data_def qft_block_def upt_rec Instr_def)
  from construct_inverse_qft_inverts [of 2] obtain qft iqft where
    f: "construct_qft 2 = Inr qft" and i: "construct_inverse_qft 2 = Inr iqft"
    and nq: "num_qubits iqft = nat 2" and nc: "num_clbits iqft = 0"
    and d: "data iqft = rev (map negate_angles (data qft))"
    and r: "\<forall>psi. run (data qft @ data iqft) psi = Some psi"
    by auto
  have dq: "data qft = [Instr HGate [0] [], Instr (CPhaseGate (pi / 2)) [1, 0] [],
                        Instr HGate [1] [], Instr SwapGate [0, 1] []]"
    using f unfolding q by auto
  have di: "data iqft = [Instr SwapGate [0, 1] [], Instr HGate [1] [],
                         Instr (CPhaseGate (- (pi / 2))) [1, 0] [], Instr HGate [0] []]"
    unfolding d dq
    by (simp add: negate_angles_def Instr_def HGate_def CPhaseGate_def SwapGate_def)
  have "iqft = \<lparr>num_qubits = 2, num_clbits = 0, data = data iqft\<rparr>"
    using nq nc by simp
  then show ?thesis
    using i r unfolding dq di by simp
qed

text \<open>
  C6 as stated fails at \<open>n = 0\<close>: \<open>construct_qft(0)\<close> and \<open>construct_inverse_qft(0)\<close>
  raise nothing and return a circuit.
\<close>

theorem construct_qft_zero_not_rejected:
  "construct_qft 0 = Inr \<lparr>num_qubits = 0, num_clbits = 0, data = []\<rparr> \<and>
   construct_inverse_qft 0 = Inr \<lparr>num_qubits = 0, num_clbits = 0, data = []\<rparr> \<and>
   \<not> (\<exists>e. construct_qft 0 = Inl e) \<and> \<not> (\<exists>e. construct_inverse_qft 0 = Inl e)"
  by (simp add: construct_qft_def construct_inverse_qft_def QuantumCircuit_def inverse_def)

text \<open>
  C6, as amended. \<open>construct_qft\<close> has no check of its own on \<open>n\<close>. For every
  \<open>n < 0\<close> the circuit constructor refuses the register size, so \<open>construct_qft(n)\<close>
  and with it \<open>construct_inverse_qft(n)\<close> raise; for \<open>n = 0\<close> both return the empty
  circuit over no qubits.
\<close>

theorem construct_qft_nonpositive:
  assumes "n \<le> 0"
  shows "if n < 0
         then construct_qft n = Inl CircuitError \<and> construct_inverse_qft n = Inl CircuitError
         else construct_qft n = Inr \<lparr>num_qubits = 0, num_clbits = 0, data = []\<rparr> \<and>
              construct_inverse_qft n = Inr \<lparr>num_qubits = 0, num_clbits = 0, data = []\<rparr>"
  using assms
  by (auto simp: construct_qft_def construct_inverse_qft_def QuantumCircuit_def inverse_def)

theorem construct_qft_nonpositive_witness:
  "(- 1::int) \<le> 0 \<and> construct_qft (- 1) = Inl CircuitError \<and>
   construct_inverse_qft (- 1) = Inl CircuitError"
  using construct_qft_nonpositive [of "- 1"] by simp

text \<open>
  C1 as stated fails at \<open>a = 0\<close>, \<open>b = 0\<close>, \<open>n = 1024\<close>: the operands are in range,
  \<open>construct_qft(1024)\<close> raises \<open>OverflowError\<close> inside \<open>construct_adder\<close>, and no
  circuit is returned.
\<close>

theorem construct_adder_overflows_at_1024:
  "(0::int) \<le> 0 \<and> (0::int) < 1024 \<and> (0::int) < 2 ^ nat 1024 \<and>
   construct_adder 0 0 1024 = Inl OverflowError \<and>
   \<not> (\<exists>c. construct_adder 0 0 1024 = Inr c)"
  by (simp add: construct_adder_overflow)

text \<open>
  C1, as amended. For non-negative \<open>a\<close>, \<open>b\<close> and \<open>n\<close> with \<open>0 < n < 1024\<close>,
  \<open>a < 2 ^ n\<close> and \<open>b < 2 ^ n\<close>, \<open>construct_adder(a, b, n)\<close> returns a circuit over
  \<open>n\<close> qubits and \<open>n\<close> classical bits built in this order: an X on qubit \<open>i\<close> for
  every bit \<open>i\<close> set in \<open>a\<close>; the circuit of \<open>construct_qft(n)\<close>; one phase rotation
  per qubit \<open>i\<close> whose angle is, in exact arithmetic, the sum over the bits \<open>j \<le> i\<close>
  set in \<open>b\<close> of \<open>2 pi / 2 ^ (i - j + 1)\<close>; the circuit of
  \<open>construct_inverse_qft(n)\<close>; a measurement of every qubit \<open>i\<close> into classical bit
  \<open>i\<close>. For \<open>n \<ge> 1024\<close> and operands in range it raises \<open>OverflowError\<close>.
\<close>

theorem construct_adder_gate_sequence:
  assumes "0 \<le> a" and "0 \<le> b" and "0 < n" and "a < 2 ^ nat n" and "b < 2 ^ nat n"
  shows "if n < 1024
         then \<exists>qft iqft.
                construct_qft n = Inr qft \<and> construct_inverse_qft n = Inr iqft \<and>
                construct_adder a b n =
                  Inr \<lparr>num_qubits = nat n, num_clbits = nat n,
                       data =
                         map (\<lambda>i. Instr XGate [i] []) (filter (\<lambda>i. bit a i) [0..<nat n]) @
                         data qft @
                         map (\<lambda>i. Instr (PhaseGate
                                      (\<Sum>j | j \<le> i \<and> bit b j. 2 * pi / 2 ^ (i - j + 1)))
                                    [i] []) [0..<nat n] @
                         data iqft @
                         map (\<lambda>i. Instr Measure [i] [i]) [0..<nat n]\<rparr>
         else construct_adder a b n = Inl OverflowError"
proof (cases "n < 1024")
  case True
  have n0: "0 \<le> n" using assms(3) by simp
  show ?thesis
    using True
    by (simp add: construct_qft_nonneg [OF n0 True] construct_inverse_qft_nonneg [OF n0 True]
        construct_adder_in_range [OF n0 True assms(4,5)])
next
  case False
  then have "1024 \<le> n" by simp
  from construct_adder_overflow [OF this assms(4,5)] False show ?thesis by simp
qed

theorem construct_adder_gate_sequence_witness:
  "(0::int) \<le> 1 \<and> (0::int) \<le> 1 \<and> (0::int) < 1 \<and> (1::int) < 2 ^ nat 1 \<and>
   construct_adder 1 1 1 =
     Inr \<lparr>num_qubits = 1, num_clbits = 1,
          data = [Instr XGate [0] [], Instr HGate [0] [], Instr (PhaseGate pi) [0] [],
                  Instr HGate [0] [], Instr Measure [0] [0]]\<rparr>"
proof -
  have q: "construct_qft 1 = Inr \<lparr>num_qubits = 1, num_clbits = 0, data = [Instr HGate [0] []]\<rparr>"
    by (simp add: construct_qft_nonneg qft_data_def qft_block_def)
  have i: "construct_inverse_qft 1 =
      Inr \<lparr>num_qubits = 1, num_clbits = 0, data = [Instr HGate [0] []]\<rparr>"
    by (simp add: construct_inverse_qft_nonneg qft_data_def qft_block_def negate_angles_def
        Instr_def HGate_def)
  have s: "{j. j = 0 \<and> bit (1::int) j} = {0}"
    by auto
  show ?thesis
    using construct_adder_gate_sequence [of 1 1 1]
    by (simp add: q i s)
qed

text \<open>
  C2. For every qubit count \<open>n\<close> (a non-negative integer) and all integers \<open>a\<close>,
  \<open>b\<close>, \<open>construct_adder(a, b, n)\<close> raises the range error exactly when
  \<open>a \<ge> 2 ^ n\<close> or \<open>b \<ge> 2 ^ n\<close>, and then no circuit is returned.
  \<open>construct_adder(5, 3, 2)\<close> fails. With the operands in range the result is a
  circuit for \<open>n < 1024\<close> and \<open>OverflowError\<close>, which is not the range error, for
  \<open>n \<ge> 1024\<close>.
\<close>

theorem construct_adder_range_error:
  assumes "0 \<le> n"
  shows "(construct_adder a b n = Inl ValueError \<longleftrightarrow> 2 ^ nat n \<le> a \<or> 2 ^ nat n \<le> b) \<and>
         (2 ^ nat n \<le> a \<or> 2 ^ nat n \<le> b \<longrightarrow> \<not> (\<exists>c. construct_adder a b n = Inr c)) \<and>
         (\<not> (2 ^ nat n \<le> a \<or> 2 ^ nat n \<le> b) \<longrightarrow>
            (if n < 1024 then \<exists>c. construct_adder a b n = Inr c
             else construct_adder a b n = Inl OverflowError)) \<and>
         construct_adder 5 3 2 = Inl ValueError"
proof -
  have out: "construct_adder a b n = Inl ValueError" if "2 ^ nat n \<le> a \<or> 2 ^ nat n \<le> b"
    using construct_adder_out_of_range [OF assms that] .
  have inr: "if n < 1024 then \<exists>c. construct_adder a b n = Inr c
             else construct_adder a b n = Inl OverflowError"
    if "\<not> (2 ^ nat n \<le> a \<or> 2 ^ nat n \<le> b)"
  proof -
    from that have r: "a < 2 ^ nat n" "b < 2 ^ nat n" by simp_all
    show ?thesis
    proof (cases "n < 1024")
      case True
      from construct_adder_in_range [OF assms True r] True show ?thesis by simp
    next
      case False
      then have "1024 \<le> n" by simp
      from construct_adder_overflow [OF this r] False show ?thesis by simp
    qed
  qed
  have nv: "construct_adder a b n \<noteq> Inl ValueError" if "\<not> (2 ^ nat n \<le> a \<or> 2 ^ nat n \<le> b)"
    using inr [OF that] by (auto split: if_splits)
  have ex: "construct_adder 5 3 2 = Inl ValueError"
    by (rule construct_adder_out_of_range) simp_all
  show ?thesis
    using out inr nv ex by auto
qed

theorem construct_adder_range_error_witness:
  "(0::int) \<le> 2 \<and> construct_adder 5 3 2 = Inl ValueError \<and>
   construct_adder 4 0 2 = Inl ValueError \<and> (\<exists>c. construct_adder 3 3 2 = Inr c)"
  using construct_adder_range_error [of 2 4 0] construct_adder_range_error [of 2 3 3]
  by simp

text \<open>
  C3 as stated fails at \<open>a = 2 ^ 1023\<close>, \<open>b = 0\<close>: the width is \<open>1024\<close>,
  \<open>construct_adder\<close> raises \<open>OverflowError\<close>, and \<open>quantum_sum\<close> returns neither a
  circuit nor a width.
\<close>

theorem quantum_sum_overflows:
  "(0::int) \<le> 2 ^ 1023 \<and>
   max (bit_length (2 ^ 1023 + 0)) (max (bit_length (2 ^ 1023)) (bit_length 0)) = 1024 \<and>
   quantum_sum (2 ^ 1023) 0 = Inl OverflowError"
proof -
  define A :: int where "A = 2 ^ 1023"
  have A0: "0 \<le> A"
    by (simp add: A_def)
  have lt: "A < 2 ^ 1024" and nlt: "\<not> A < 2 ^ 1023"
    unfolding A_def by (simp_all only: power_strict_increasing_iff)
  have le: "bit_length A \<le> int 1024"
    using bit_length_le [OF A0, of 1024] lt by simp
  have nle: "\<not> bit_length A \<le> int 1023"
    using bit_length_le [OF A0, of 1023] nlt by simp
  have b: "bit_length A = 1024"
    using le nle by simp
  have z: "bit_length 0 = 0"
    by (simp add: bit_length_def bit_length_nat.simps)
  have "A < 2 ^ nat 1024"
    using lt by simp
  then have c: "construct_adder A 0 1024 = Inl OverflowError"
    by (intro construct_adder_overflow) simp_all
  have "0 \<le> A \<and> max (bit_length (A + 0)) (max (bit_length A) (bit_length 0)) = 1024 \<and>
      quantum_sum A 0 = Inl OverflowError"
    using A0 c by (simp add: quantum_sum_def Let_def b z)
  then show ?thesis
    unfolding A_def .
qed

text \<open>
  C3, as amended. For non-negative \<open>a\<close> and \<open>b\<close>, \<open>quantum_sum(a, b)\<close> takes
  \<open>n = max(bit_length(a + b), bit_length(a), bit_length(b))\<close>, which is the least
  width in which \<open>a\<close>, \<open>b\<close> and \<open>a + b\<close> can all be written. For
  \<open>a + b < 2 ^ 1023\<close> it returns the circuit of \<open>construct_adder(a, b, n)\<close> together
  with \<open>n\<close>; for \<open>a + b \<ge> 2 ^ 1023\<close> the width is at least \<open>1024\<close> and it raises
  \<open>OverflowError\<close>. For \<open>a = 3\<close>, \<open>b = 5\<close> the width is \<open>4\<close>.
\<close>

theorem quantum_sum_width:
  assumes "0 \<le> a" and "0 \<le> b"
  shows "\<exists>n.
           n = max (bit_length (a + b)) (max (bit_length a) (bit_length b)) \<and>
           0 \<le> n \<and> a < 2 ^ nat n \<and> b < 2 ^ nat n \<and> a + b < 2 ^ nat n \<and>
           (\<forall>m::nat. a < 2 ^ m \<and> b < 2 ^ m \<and> a + b < 2 ^ m \<longrightarrow> nat n \<le> m) \<and>
           (if a + b < 2 ^ 1023
            then \<exists>c. construct_adder a b n = Inr c \<and> quantum_sum a b = Inr (c, n)
            else 1024 \<le> n \<and> quantum_sum a b = Inl OverflowError) \<and>
           max (bit_length (3 + 5)) (max (bit_length 3) (bit_length 5)) = 4"
proof -
  define n where "n = max (bit_length (a + b)) (max (bit_length a) (bit_length b))"
  have ab: "0 \<le> a + b" using assms by simp
  have n0: "0 \<le> n"
    by (simp add: n_def bit_length_nonneg le_max_iff_disj)
  then have nn: "int (nat n) = n" by simp
  have le: "bit_length a \<le> int (nat n)" "bit_length b \<le> int (nat n)"
    "bit_length (a + b) \<le> int (nat n)"
    unfolding nn by (simp_all add: n_def)
  have fit: "a < 2 ^ nat n" "b < 2 ^ nat n" "a + b < 2 ^ nat n"
    using le(1) bit_length_le [OF assms(1), of "nat n"]
      le(2) bit_length_le [OF assms(2), of "nat n"]
      le(3) bit_length_le [OF ab, of "nat n"]
    by blast+
  have least: "nat n \<le> m" if "a < 2 ^ m \<and> b < 2 ^ m \<and> a + b < 2 ^ m" for m :: nat
  proof -
    from that have "bit_length a \<le> int m" "bit_length b \<le> int m" "bit_length (a + b) \<le> int m"
      by (simp_all add: bit_length_le assms ab)
    then have "n \<le> int m" by (simp add: n_def)
    then show ?thesis by simp
  qed
  have small: "n < 1024 \<longleftrightarrow> a + b < 2 ^ 1023"
  proof
    assume "n < 1024"
    then have "nat n \<le> 1023" by simp
    then have "(2::int) ^ nat n \<le> 2 ^ 1023"
      by (intro power_increasing) simp_all
    with fit(3) show "a + b < 2 ^ 1023" by simp
  next
    assume s: "a + b < 2 ^ 1023"
    then have "a < 2 ^ 1023" and "b < 2 ^ 1023"
      using assms by simp_all
    with s least [of 1023] have "nat n \<le> 1023" by simp
    then show "n < 1024" by simp
  qed
  have res: "if a + b < 2 ^ 1023
      then \<exists>c. construct_adder a b n = Inr c \<and> quantum_sum a b = Inr (c, n)
      else 1024 \<le> n \<and> quantum_sum a b = Inl OverflowError"
  proof (cases "a + b < 2 ^ 1023")
    case True
    then have lt: "n < 1024" using small by simp
    from construct_adder_in_range [OF n0 lt fit(1,2)] obtain c where
      c: "construct_adder a b n = Inr c"
      by blast
    have "quantum_sum a b = Inr (c, n)"
      using c by (simp add: quantum_sum_def Let_def n_def)
    with c True show ?thesis by simp
  next
    case False
    then have ge: "1024 \<le> n" using small by simp
    have "construct_adder a b n = Inl OverflowError"
      using ge fit(1,2) by (rule construct_adder_overflow)
    then have "quantum_sum a b = Inl OverflowError"
      by (simp add: quantum_sum_def Let_def n_def)
    with ge False show ?thesis by simp
  qed
  have ex: "max (bit_length (3 + 5)) (max (bit_length 3) (bit_length 5)) = 4"
    by (simp add: bit_length_def bit_length_nat.simps)
  show ?thesis
    using n0 fit least res ex n_def by blast
qed

theorem quantum_sum_width_witness:
  "(0::int) \<le> 3 \<and> (0::int) \<le> 5 \<and> (\<exists>c. quantum_sum 3 5 = Inr (c, 4))"
proof -
  have ex: "max (bit_length (3 + 5)) (max (bit_length 3) (bit_length 5)) = 4"
    by (simp add: bit_length_def bit_length_nat.simps)
  show ?thesis
    using quantum_sum_width [of 3 5] unfolding ex by auto
qed

text \<open>
  C10. \<open>quantum_sum(0, 0)\<close> does not raise: the width is \<open>0\<close>, and the result is the
  circuit over no qubits and no classical bits that holds no instruction.
\<close>

theorem quantum_sum_zero:
  "quantum_sum 0 0 = Inr (\<lparr>num_qubits = 0, num_clbits = 0, data = []\<rparr>, 0)"
proof -
  have n: "bit_length 0 = 0"
    by (simp add: bit_length_def bit_length_nat.simps)
  have "construct_adder 0 0 0 = Inr \<lparr>num_qubits = 0, num_clbits = 0, data = []\<rparr>"
    using construct_adder_in_range [of 0 0 0] by (simp add: qft_data_def)
  then show ?thesis
    by (simp add: quantum_sum_def Let_def n)
qed

text \<open>
  C7 on a circuit that holds one controlled swap on qubits 0, 1, 2. The library defines
  the controlled swap as \<open>cx\<close> on (2, 1), \<open>ccx\<close> on (0, 1, 2), \<open>cx\<close> on (2, 1), and
  that is what \<open>decompose\<close> returns for the local circuit. The last branch of
  \<open>transform_circuit\<close> appends the three-qubit \<open>ccx\<close> as it is, so the output holds
  an operator whose name is not in the basis set.
\<close>

theorem transform_circuit_leaves_ccx:
  assumes "decompose \<lparr>num_qubits = 3, num_clbits = 0, data = [Instr CSwapGate [0, 1, 2] []]\<rparr> =
             \<lparr>num_qubits = 3, num_clbits = 0,
              data = [Instr CXGate [2, 1] [], Instr CCXGate [0, 1, 2] [], Instr CXGate [2, 1] []]\<rparr>"
  shows "transform_circuit angles decompose
           \<lparr>num_qubits = 3, num_clbits = 0, data = [Instr CSwapGate [0, 1, 2] []]\<rparr> =
         Inr \<lparr>num_qubits = 3, num_clbits = 0,
              data = [Instr CXGate [2, 1] [], Instr CCXGate [0, 1, 2] [], Instr CXGate [2, 1] []]\<rparr> \<and>
         name (operation (Instr CCXGate [0, 1, 2] [])) = ''ccx'' \<and>
         ''ccx'' \<notin> basis_gates"
  using transform_cswap [of decompose angles, OF assms]
  by (simp add: Instr_def CCXGate_def basis_names)

theorem transform_circuit_leaves_ccx_witness:
  "transform_circuit (\<lambda>g. Inl QiskitError)
     (\<lambda>c. c\<lparr>data := [Instr CXGate [2, 1] [], Instr CCXGate [0, 1, 2] [], Instr CXGate [2, 1] []]\<rparr>)
     \<lparr>num_qubits = 3, num_clbits = 0, data = [Instr CSwapGate [0, 1, 2] []]\<rparr> =
   Inr \<lparr>num_qubits = 3, num_clbits = 0,
        data = [Instr CXGate [2, 1] [], Instr CCXGate [0, 1, 2] [], Instr CXGate [2, 1] []]\<rparr>"
  using transform_circuit_leaves_ccx
    [of "\<lambda>c. c\<lparr>data := [Instr CXGate [2, 1] [], Instr CCXGate [0, 1, 2] [], Instr CXGate [2, 1] []]\<rparr>"
        "\<lambda>g. Inl QiskitError"]
  by simp

text \<open>
  C8 on the phase operator with angle \<open>0\<close>, the operator the adder puts on every qubit
  when \<open>b = 0\<close>; its matrix is the identity. The library gives the Euler triple of a
  matrix \<open>U\<close> in the convention \<open>U = Rz(phi) Ry(theta) Rz(lambda)\<close> up to a global
  phase. For every triple that is an Euler triple of the identity in this convention,
  \<open>_decompose_single_qubit_gate\<close> returns \<open>rz(phi)\<close>, \<open>sx\<close>, \<open>rz(theta)\<close>,
  \<open>sx\<close>, \<open>rz(lambda)\<close> on the qubit, in this order, and the product of the five
  matrices is not the identity up to a global phase.
\<close>

theorem decompose_single_qubit_gate_not_equivalent:
  assumes "angles (PhaseGate 0) = Inr (theta, phi, lambda)"
    and "phase_equiv (mat_mul (RZ_mat phi) (mat_mul (RY_mat theta) (RZ_mat lambda))) I_mat"
  shows "gate_matrix (PhaseGate 0) = Some I_mat \<and>
         decompose_single_qubit_gate angles (PhaseGate 0) q =
           Inr [(RZGate phi, [q]), (SXGate, [q]), (RZGate theta, [q]), (SXGate, [q]),
                (RZGate lambda, [q])] \<and>
         sequence_matrix [(RZGate phi, [q]), (SXGate, [q]), (RZGate theta, [q]), (SXGate, [q]),
                          (RZGate lambda, [q])] =
           Some (mat_mul (RZ_mat lambda) (mat_mul SX_mat (mat_mul (RZ_mat theta)
                   (mat_mul SX_mat (RZ_mat phi))))) \<and>
         \<not> phase_equiv
             (mat_mul (RZ_mat lambda) (mat_mul SX_mat (mat_mul (RZ_mat theta)
                (mat_mul SX_mat (RZ_mat phi))))) I_mat"
proof -
  have U: "gate_matrix (PhaseGate 0) = Some I_mat"
    by (simp add: gate_matrix_def PhaseGate_def P_mat_def I_mat_def)
  have rz: "gate_matrix (RZGate x) = Some (RZ_mat x)" for x
    by (simp add: gate_matrix_def RZGate_def)
  have sx: "gate_matrix SXGate = Some SX_mat"
    by (simp add: gate_matrix_def SXGate_def)
  have V: "sequence_matrix [(RZGate phi, [q]), (SXGate, [q]), (RZGate theta, [q]), (SXGate, [q]),
      (RZGate lambda, [q])] =
      Some (mat_mul (RZ_mat lambda) (mat_mul SX_mat (mat_mul (RZ_mat theta)
              (mat_mul SX_mat (RZ_mat phi)))))"
    by (simp add: rz sx mat_mul_assoc)
  have N: "\<not> phase_equiv
      (mat_mul (RZ_mat lambda) (mat_mul SX_mat (mat_mul (RZ_mat theta)
         (mat_mul SX_mat (RZ_mat phi))))) I_mat"
    using zyz_identity_sin [OF assms(2)] by (rule emitted_not_identity)
  show ?thesis
    using U V N decompose_single_qubit_gate_emits [of angles "PhaseGate 0", OF assms(1), of q]
    by blast
qed

theorem decompose_single_qubit_gate_not_equivalent_witness:
  "phase_equiv (mat_mul (RZ_mat 0) (mat_mul (RY_mat 0) (RZ_mat 0))) I_mat \<and>
   decompose_single_qubit_gate (\<lambda>g. Inr (0, 0, 0)) (PhaseGate 0) 0 =
     Inr [(RZGate 0, [0]), (SXGate, [0]), (RZGate 0, [0]), (SXGate, [0]), (RZGate 0, [0])] \<and>
   sequence_matrix [(RZGate 0, [0]), (SXGate, [0]), (RZGate 0, [0]), (SXGate, [0]),
     (RZGate 0, [0])] = Some X_mat \<and>
   \<not> phase_equiv X_mat I_mat"
proof -
  have E: "phase_equiv (mat_mul (RZ_mat 0) (mat_mul (RY_mat 0) (RZ_mat 0))) I_mat"
    by (simp add: RZ_mat_zero RY_mat_zero phase_equiv_refl)
  have X: "mat_mul (RZ_mat 0) (mat_mul SX_mat (mat_mul (RZ_mat 0) (mat_mul SX_mat (RZ_mat 0)))) =
      X_mat"
    by (simp add: RZ_mat_zero SX_mat_square)
  show ?thesis
    using decompose_single_qubit_gate_not_equivalent
      [of "\<lambda>g. Inr (0, 0, 0)" 0 0 0 0, OF refl E]
    unfolding X using E by simp
qed

text \<open>
  C9 on the same circuit: the transformed circuit has three instructions, and the counts
  of \<open>get_gate_counts\<close> add up to two, since the \<open>ccx\<close> is not counted.
\<close>

theorem gate_counts_miss_ccx:
  assumes "decompose \<lparr>num_qubits = 3, num_clbits = 0, data = [Instr CSwapGate [0, 1, 2] []]\<rparr> =
             \<lparr>num_qubits = 3, num_clbits = 0,
              data = [Instr CXGate [2, 1] [], Instr CCXGate [0, 1, 2] [], Instr CXGate [2, 1] []]\<rparr>"
  shows "\<exists>out.
           transform_circuit angles decompose
             \<lparr>num_qubits = 3, num_clbits = 0, data = [Instr CSwapGate [0, 1, 2] []]\<rparr> = Inr out \<and>
           length (data out) = 3 \<and>
           total_count (get_gate_counts out) = 2 \<and>
           get_gate_counts out ''cx'' = Some 2 \<and>
           get_gate_counts out ''ccx'' = None"
  using transform_cswap [of decompose angles, OF assms]
  by (simp add: total_count_get_gate_counts get_gate_counts_eq Instr_def CXGate_def CCXGate_def
      lower_names basis_names)

theorem gate_counts_miss_ccx_witness:
  "\<exists>out.
     transform_circuit (\<lambda>g. Inl QiskitError)
       (\<lambda>c. c\<lparr>data := [Instr CXGate [2, 1] [], Instr CCXGate [0, 1, 2] [], Instr CXGate [2, 1] []]\<rparr>)
       \<lparr>num_qubits = 3, num_clbits = 0, data = [Instr CSwapGate [0, 1, 2] []]\<rparr> = Inr out \<and>
     length (data out) = 3 \<and> total_count (get_gate_counts out) = 2"
  using gate_counts_miss_ccx
    [of "\<lambda>c. c\<lparr>data := [Instr CXGate [2, 1] [], Instr CCXGate [0, 1, 2] [], Instr CXGate [2, 1] []]\<rparr>"
        "\<lambda>g. Inl QiskitError"]
  by auto

end
